theory Spec2Isabelle
  imports Complex_Main "HOL-Library.AList"
begin

section \<open>Python values and exceptions\<close>

text \<open>
  The program is a single Flask module, \<^verbatim>\<open>app.py\<close>.  Every exception the module or
  the library calls it makes can raise is a value of \<open>py_exception\<close>; a computation
  that may raise returns \<open>py_exception + 'a\<close>, with \<open>Inl\<close> for the raise.
\<close>

datatype py_exception =
    AttributeError
  | KeyError
  | IndexError
  | ValueError
  | TypeError
  | OverflowError
  | UnknownTimeZoneError
  | OtherException string

section \<open>Module initialisation (lines 20--21)\<close>

text \<open>
  \<^verbatim>\<open>
  username = os.getenv.getenv('METEOMATICS_USERNAME')
  password = os.getenv.getenv('METEOMATICS_PASSWORD')
  \<close>
  The process environment is a list of name/value pairs.  \<^verbatim>\<open>os.getenv\<close> is a plain
  function; \<^verbatim>\<open>os.getenv(key)\<close> is \<^verbatim>\<open>os.environ.get(key)\<close>, that is \<^verbatim>\<open>None\<close> for an
  unset variable.
\<close>

type_synonym environ = "(string \<times> string) list"

type_synonym credential = "string option"

datatype pyobj =
    FunctionObj string
  | StrOrNone credential
  | OpaqueObj

definition os_getenv :: "environ \<Rightarrow> string \<Rightarrow> credential" where
  "os_getenv env key = map_of env key"

text \<open>
  Attribute lookup on a function object.  A function carries the special attributes
  listed below (what \<^verbatim>\<open>dir(os.getenv)\<close> shows) and whatever the program stored in its
  \<^verbatim>\<open>__dict__\<close>; nothing stores an attribute on \<^verbatim>\<open>os.getenv\<close>.  Any other name raises
  \<^verbatim>\<open>AttributeError\<close>.
\<close>

definition function_attributes :: "string list" where
  "function_attributes =
     [''__annotations__'', ''__builtins__'', ''__call__'', ''__class__'', ''__closure__'',
      ''__code__'', ''__defaults__'', ''__delattr__'', ''__dict__'', ''__dir__'', ''__doc__'',
      ''__eq__'', ''__format__'', ''__ge__'', ''__get__'', ''__getattribute__'', ''__getstate__'',
      ''__globals__'', ''__gt__'', ''__hash__'', ''__init__'', ''__init_subclass__'',
      ''__kwdefaults__'', ''__le__'', ''__lt__'', ''__module__'', ''__name__'', ''__ne__'',
      ''__new__'', ''__qualname__'', ''__reduce__'', ''__reduce_ex__'', ''__repr__'',
      ''__setattr__'', ''__sizeof__'', ''__str__'', ''__subclasshook__'']"

definition function_getattr :: "string \<Rightarrow> string \<Rightarrow> py_exception + pyobj" where
  "function_getattr f name =
     (if name \<in> set function_attributes then Inr OpaqueObj else Inl AttributeError)"

text \<open>Calling an object with one string argument; only \<^verbatim>\<open>os.getenv\<close> is callable here.\<close>

definition call_obj :: "environ \<Rightarrow> pyobj \<Rightarrow> string \<Rightarrow> py_exception + pyobj" where
  "call_obj env f arg =
     (case f of
        FunctionObj name \<Rightarrow>
          (if name = ''os.getenv'' then Inr (StrOrNone (os_getenv env arg)) else Inl TypeError)
      | _ \<Rightarrow> Inl TypeError)"

record globals =
  username :: pyobj
  password :: pyobj

text \<open>
  The two assignments, in order: each evaluates the attribute \<^verbatim>\<open>getenv\<close> of the
  function \<^verbatim>\<open>os.getenv\<close> and then calls the result.  An exception here is raised while
  the module is imported, before any route is registered.
\<close>

definition module_init :: "environ \<Rightarrow> py_exception + globals" where
  "module_init env =
     (case function_getattr ''os.getenv'' ''getenv'' of
        Inl e \<Rightarrow> Inl e
      | Inr f1 \<Rightarrow>
          (case call_obj env f1 ''METEOMATICS_USERNAME'' of
             Inl e \<Rightarrow> Inl e
           | Inr u \<Rightarrow>
               (case function_getattr ''os.getenv'' ''getenv'' of
                  Inl e \<Rightarrow> Inl e
                | Inr f2 \<Rightarrow>
                    (case call_obj env f2 ''METEOMATICS_PASSWORD'' of
                       Inl e \<Rightarrow> Inl e
                     | Inr p \<Rightarrow> Inr \<lparr>username = u, password = p\<rparr>))))"

section \<open>Floats, coordinates and the city registry (lines 24--29)\<close>

text \<open>
  A Python float is the real number it denotes, or one of the three special values.
  The program does no arithmetic on floats: it parses them, stores them and hands them
  to the libraries, so the rounding of a literal to binary64 plays no part here.
\<close>

datatype pyfloat = Finite real | Infinite bool | NaN

text \<open>A coordinate is the Python tuple \<^verbatim>\<open>(lat, lon)\<close>.\<close>

type_synonym coordinate = "pyfloat \<times> pyfloat"

text \<open>The dictionary \<^verbatim>\<open>cities\<close>, in insertion order.\<close>

definition cities :: "(string \<times> coordinate) list" where
  "cities =
     [(''Bloomington'', (Finite 39.165325, Finite (- 86.52638569999999))),
      (''Chicago'', (Finite 41.8781, Finite (- 87.6298))),
      (''New York'', (Finite 40.7128, Finite (- 74.0060))),
      (''Los Angeles'', (Finite 34.0522, Finite (- 118.2437)))]"

text \<open>The list \<^verbatim>\<open>parameters\<close> (lines 32--38).\<close>

definition parameters :: "string list" where
  "parameters = [''t_2m:C'', ''precip_1h:mm'', ''wind_speed_10m:ms'', ''relative_humidity_2m:p'', ''uv:idx'']"

text \<open>
  \<^verbatim>\<open>cities.get(city, cities['Bloomington'])\<close>: the default argument is evaluated
  first, by subscription, which raises \<^verbatim>\<open>KeyError\<close> for a missing key.
\<close>

definition dict_subscript :: "('k \<times> 'v) list \<Rightarrow> 'k \<Rightarrow> py_exception + 'v" where
  "dict_subscript dict k = (case map_of dict k of None \<Rightarrow> Inl KeyError | Some v \<Rightarrow> Inr v)"

definition dict_get :: "('k \<times> 'v) list \<Rightarrow> 'k \<Rightarrow> 'v \<Rightarrow> 'v" where
  "dict_get dict k dflt = (case map_of dict k of None \<Rightarrow> dflt | Some v \<Rightarrow> v)"

definition city_coordinate :: "string \<Rightarrow> py_exception + coordinate" where
  "city_coordinate city =
     (case dict_subscript cities ''Bloomington'' of
        Inl e \<Rightarrow> Inl e
      | Inr dflt \<Rightarrow> Inr (dict_get cities city dflt))"

text \<open>The range a latitude and a longitude are meant to lie in.\<close>

definition float_between :: "real \<Rightarrow> real \<Rightarrow> pyfloat \<Rightarrow> bool" where
  "float_between lo hi x = (case x of Finite r \<Rightarrow> lo \<le> r \<and> r \<le> hi | _ \<Rightarrow> False)"

definition coordinate_in_range :: "coordinate \<Rightarrow> bool" where
  "coordinate_in_range c = (float_between (- 90) 90 (fst c) \<and> float_between (- 180) 180 (snd c))"

section \<open>The calendar of Python's \<^verbatim>\<open>datetime\<close>\<close>

text \<open>
  The program computes with \<^verbatim>\<open>datetime\<close> objects: the forecast window (lines 92--94)
  and the conversion of every reading's time stamp (lines 141--144).  The functions
  below follow the reference implementation of the standard library module
  (\<^verbatim>\<open>Lib/_pydatetime.py\<close>): the proleptic Gregorian ordinal of a date and its
  inverse.  Python's \<^verbatim>\<open>//\<close> and \<^verbatim>\<open>%\<close> round towards minus infinity, as \<open>div\<close> and
  \<open>mod\<close> on \<open>int\<close> do.
\<close>

definition DAYS_IN_MONTH :: "int list" where
  "DAYS_IN_MONTH = [-1, 31, 28, 31, 30, 31, 30, 31, 31, 30, 31, 30, 31]"

definition DAYS_BEFORE_MONTH :: "int list" where
  "DAYS_BEFORE_MONTH = [-1, 0, 31, 59, 90, 120, 151, 181, 212, 243, 273, 304, 334]"

definition is_leap :: "int \<Rightarrow> bool" where
  "is_leap year = (year mod 4 = 0 \<and> (year mod 100 \<noteq> 0 \<or> year mod 400 = 0))"

definition days_before_year :: "int \<Rightarrow> int" where
  "days_before_year year = (let y = year - 1 in y * 365 + y div 4 - y div 100 + y div 400)"

definition days_in_month :: "int \<Rightarrow> int \<Rightarrow> int" where
  "days_in_month year month =
     (if month = 2 \<and> is_leap year then 29 else DAYS_IN_MONTH ! nat month)"

definition days_before_month :: "int \<Rightarrow> int \<Rightarrow> int" where
  "days_before_month year month =
     DAYS_BEFORE_MONTH ! nat month + (if month > 2 \<and> is_leap year then 1 else 0)"

definition ymd2ord :: "int \<Rightarrow> int \<Rightarrow> int \<Rightarrow> int" where
  "ymd2ord year month day = days_before_year year + days_before_month year month + day"

definition DI400Y :: int where "DI400Y = days_before_year 401"
definition DI100Y :: int where "DI100Y = days_before_year 101"
definition DI4Y :: int where "DI4Y = days_before_year 5"

definition MAXORDINAL :: int where "MAXORDINAL = 3652059"

definition ord2ymd :: "int \<Rightarrow> int \<times> int \<times> int" where
  "ord2ymd n0 =
     (let n = n0 - 1;
          n400 = n div DI400Y; n = n mod DI400Y;
          year = n400 * 400 + 1;
          n100 = n div DI100Y; n = n mod DI100Y;
          n4 = n div DI4Y; n = n mod DI4Y;
          n1 = n div 365; n = n mod 365;
          year = year + n100 * 100 + n4 * 4 + n1
      in if n1 = 4 \<or> n100 = 4 then (year - 1, 12, 31)
         else
           (let leapyear = (n1 = 3 \<and> (n4 \<noteq> 24 \<or> n100 = 3));
                month = (n + 50) div 32;
                preceding = DAYS_BEFORE_MONTH ! nat month + (if month > 2 \<and> leapyear then 1 else 0)
            in if preceding > n
               then (let month = month - 1;
                         preceding = preceding - (DAYS_IN_MONTH ! nat month + (if month = 2 \<and> leapyear then 1 else 0))
                     in (year, month, n - preceding + 1))
               else (year, month, n - preceding + 1)))"


section \<open>Time deltas and datetimes\<close>

text \<open>
  A \<^verbatim>\<open>timedelta\<close> is a whole number of microseconds (Python keeps it normalised as
  days, seconds and microseconds).
\<close>

type_synonym timedelta = int

definition SECOND :: timedelta where "SECOND = 1000000"
definition MINUTE :: timedelta where "MINUTE = 60 * SECOND"
definition HOUR :: timedelta where "HOUR = 3600 * SECOND"
definition DAY :: timedelta where "DAY = 86400 * SECOND"

text \<open>
  A \<^verbatim>\<open>datetime\<close> holds its calendar fields and an optional \<^verbatim>\<open>tzinfo\<close>.  The only
  thing the program asks of a \<^verbatim>\<open>tzinfo\<close> attached to a datetime is its UTC offset, so
  the attached zone is that offset: \<open>Some 0\<close> for \<^verbatim>\<open>timezone.utc\<close>, \<open>None\<close> for a naive
  datetime.
\<close>

record datetime =
  year :: int
  month :: int
  day :: int
  hour :: int
  minute :: int
  second :: int
  microsecond :: int
  tzinfo :: "timedelta option"

text \<open>The checks of the constructor (\<^verbatim>\<open>_check_date_fields\<close>, \<^verbatim>\<open>_check_time_fields\<close>).\<close>

definition check_date_fields :: "int \<Rightarrow> int \<Rightarrow> int \<Rightarrow> bool" where
  "check_date_fields y m d =
     (1 \<le> y \<and> y \<le> 9999 \<and> 1 \<le> m \<and> m \<le> 12 \<and> 1 \<le> d \<and> d \<le> days_in_month y m)"

definition check_time_fields :: "int \<Rightarrow> int \<Rightarrow> int \<Rightarrow> int \<Rightarrow> bool" where
  "check_time_fields hh mi ss us =
     (0 \<le> hh \<and> hh \<le> 23 \<and> 0 \<le> mi \<and> mi \<le> 59 \<and> 0 \<le> ss \<and> ss \<le> 59 \<and> 0 \<le> us \<and> us \<le> 999999)"

definition new_datetime ::
  "int \<Rightarrow> int \<Rightarrow> int \<Rightarrow> int \<Rightarrow> int \<Rightarrow> int \<Rightarrow> int \<Rightarrow> timedelta option \<Rightarrow> py_exception + datetime" where
  "new_datetime y m d hh mi ss us tz =
     (if check_date_fields y m d \<and> check_time_fields hh mi ss us
      then Inr \<lparr>year = y, month = m, day = d, hour = hh, minute = mi, second = ss,
                microsecond = us, tzinfo = tz\<rparr>
      else Inl ValueError)"

text \<open>The datetimes Python can hold: what the constructor accepts.\<close>

definition valid_datetime :: "datetime \<Rightarrow> bool" where
  "valid_datetime t =
     (check_date_fields (year t) (month t) (day t)
      \<and> check_time_fields (hour t) (minute t) (second t) (microsecond t))"

definition toordinal :: "datetime \<Rightarrow> int" where
  "toordinal t = ymd2ord (year t) (month t) (day t)"

text \<open>
  \<^verbatim>\<open>utcoffset()\<close>: the offset of the attached zone.  Python refuses an offset that is
  not strictly between minus and plus one day.
\<close>

definition utcoffset :: "datetime \<Rightarrow> py_exception + timedelta option" where
  "utcoffset t =
     (case tzinfo t of
        None \<Rightarrow> Inr None
      | Some off \<Rightarrow> (if - DAY < off \<and> off < DAY then Inr (Some off) else Inl ValueError))"

text \<open>
  \<^verbatim>\<open>datetime.__add__\<close>: the sum goes through the ordinal of the date and is refused
  with \<^verbatim>\<open>OverflowError\<close> outside the years 1 to 9999.
\<close>

definition datetime_add :: "datetime \<Rightarrow> timedelta \<Rightarrow> py_exception + datetime" where
  "datetime_add t delta =
     (let total = toordinal t * DAY + hour t * HOUR + minute t * MINUTE + second t * SECOND
                    + microsecond t + delta;
          days = total div DAY;
          rest = total mod DAY;
          seconds = rest div SECOND;
          us = rest mod SECOND;
          hh = seconds div 3600;
          mi = (seconds mod 3600) div 60;
          ss = (seconds mod 3600) mod 60
      in if 0 < days \<and> days \<le> MAXORDINAL
         then (case ord2ymd days of
                 (y, m, d) \<Rightarrow>
                   Inr \<lparr>year = y, month = m, day = d, hour = hh, minute = mi, second = ss,
                         microsecond = us, tzinfo = tzinfo t\<rparr>)
         else Inl OverflowError)"

text \<open>
  \<^verbatim>\<open>datetime.__sub__\<close> of two datetimes: the difference of the wall-clock fields,
  corrected by the offsets when both are aware; mixing a naive and an aware datetime
  raises \<^verbatim>\<open>TypeError\<close>.
\<close>

definition wall_micros :: "datetime \<Rightarrow> int" where
  "wall_micros t =
     toordinal t * DAY + (second t + minute t * 60 + hour t * 3600) * SECOND + microsecond t"

definition datetime_sub :: "datetime \<Rightarrow> datetime \<Rightarrow> py_exception + timedelta" where
  "datetime_sub t1 t2 =
     (let base = wall_micros t1 - wall_micros t2
      in case utcoffset t1 of
           Inl e \<Rightarrow> Inl e
         | Inr off1 \<Rightarrow>
             (case utcoffset t2 of
                Inl e \<Rightarrow> Inl e
              | Inr off2 \<Rightarrow>
                  (if off1 = off2 then Inr base
                   else (case (off1, off2) of
                           (Some o1, Some o2) \<Rightarrow> Inr (base + o2 - o1)
                         | _ \<Rightarrow> Inl TypeError))))"

text \<open>
  The instant an aware datetime denotes, in microseconds since the start of year 1 in
  UTC: its wall-clock reading less its offset.
\<close>

definition instant :: "datetime \<Rightarrow> int option" where
  "instant t = (case tzinfo t of None \<Rightarrow> None | Some off \<Rightarrow> Some (wall_micros t - off))"

section \<open>ISO 8601 text: \<^verbatim>\<open>isoformat\<close> and \<^verbatim>\<open>fromisoformat\<close>\<close>

text \<open>Decimal digits, and the \<^verbatim>\<open>%0wd\<close> conversion of Python's string formatting.\<close>

definition digit_char :: "int \<Rightarrow> char" where
  "digit_char n = ''0123456789'' ! nat n"

definition digit_val :: "char \<Rightarrow> int option" where
  "digit_val c =
     (let n = (of_char c :: int) in if 48 \<le> n \<and> n \<le> 57 then Some (n - 48) else None)"

text \<open>The decimal digits of an integer that is not negative.\<close>

function decimal :: "int \<Rightarrow> string" where
  "decimal n = (if n < 10 then [digit_char n] else decimal (n div 10) @ [digit_char (n mod 10)])"
  by pat_completeness auto
termination
  by (relation "measure nat") auto

declare decimal.simps [simp del]

definition zero_pad :: "nat \<Rightarrow> int \<Rightarrow> string" where
  "zero_pad w v =
     (if v < 0
      then CHR ''-'' # replicate (w - 1 - length (decimal (- v))) CHR ''0'' @ decimal (- v)
      else replicate (w - length (decimal v)) CHR ''0'' @ decimal v)"

text \<open>\<^verbatim>\<open>_format_time\<close> with \<^verbatim>\<open>timespec='auto'\<close>: microseconds are written only when not zero.\<close>

definition format_time :: "int \<Rightarrow> int \<Rightarrow> int \<Rightarrow> int \<Rightarrow> string" where
  "format_time hh mi ss us =
     zero_pad 2 hh @ '':'' @ zero_pad 2 mi @ '':'' @ zero_pad 2 ss
       @ (if us \<noteq> 0 then ''.'' @ zero_pad 6 us else [])"

text \<open>\<^verbatim>\<open>_format_offset\<close>: sign, hours and minutes; seconds and microseconds only when not zero.\<close>

definition format_offset :: "timedelta option \<Rightarrow> string" where
  "format_offset off =
     (case off of
        None \<Rightarrow> []
      | Some v \<Rightarrow>
          (let sign = (if v < 0 then ''-'' else ''+'');
               a = (if v < 0 then - v else v);
               hh = a div HOUR;
               r = a mod HOUR;
               mi = r div MINUTE;
               ss = r mod MINUTE;
               s = sign @ zero_pad 2 hh @ '':'' @ zero_pad 2 mi
           in if ss \<noteq> 0
              then s @ '':'' @ zero_pad 2 (ss div SECOND)
                     @ (if ss mod SECOND \<noteq> 0 then ''.'' @ zero_pad 6 (ss mod SECOND) else [])
              else s))"

definition isoformat :: "datetime \<Rightarrow> py_exception + string" where
  "isoformat t =
     (case utcoffset t of
        Inl e \<Rightarrow> Inl e
      | Inr off \<Rightarrow>
          Inr (zero_pad 4 (year t) @ ''-'' @ zero_pad 2 (month t) @ ''-'' @ zero_pad 2 (day t) @ ''T''
                 @ format_time (hour t) (minute t) (second t) (microsecond t)
                 @ format_offset off))"

text \<open>
  \<^verbatim>\<open>datetime.fromisoformat\<close> is the C function \<^verbatim>\<open>datetime_fromisoformat\<close> of CPython 3.11
  (\<^verbatim>\<open>Modules/_datetimemodule.c\<close>), which reads the UTF-8 encoding of its argument.  A
  text is therefore the list of the bytes of its encoding.  A C pointer into the text
  is the rest of the text from that position on; the byte at the end of the text is the
  terminating \<^verbatim>\<open>NUL\<close>, and a pointer is at or after another one when its rest is not
  longer.  \<open>parse_digits k acc s\<close> reads exactly \<open>k\<close> decimal digits.
\<close>

definition NUL :: char where
  "NUL = CHR 0x00"

definition peek :: "string \<Rightarrow> char" where
  "peek p = (case p of [] \<Rightarrow> NUL | c # _ \<Rightarrow> c)"

definition is_digit :: "char \<Rightarrow> bool" where
  "is_digit c = (digit_val c \<noteq> None)"

fun parse_digits :: "nat \<Rightarrow> int \<Rightarrow> string \<Rightarrow> (int \<times> string) option" where
  "parse_digits 0 acc s = Some (acc, s)"
| "parse_digits (Suc k) acc [] = None"
| "parse_digits (Suc k) acc (c # s) =
     (case digit_val c of None \<Rightarrow> None | Some v \<Rightarrow> parse_digits k (acc * 10 + v) s)"

text \<open>
  ISO week dates (\<^verbatim>\<open>weekday\<close>, \<^verbatim>\<open>iso_week1_monday\<close>, \<^verbatim>\<open>iso_to_ymd\<close>).  Week 53 exists in
  the years that start on a Thursday, and in the leap years that start on a Wednesday.
  A week of the year 0 lies before the first day of the calendar; the date computed for
  it has a year below 1, which the constructor refuses.
\<close>

definition weekday :: "int \<Rightarrow> int \<Rightarrow> int \<Rightarrow> int" where
  "weekday y m d = (ymd2ord y m d + 6) mod 7"

definition iso_week1_monday :: "int \<Rightarrow> int" where
  "iso_week1_monday y =
     (let first_day = ymd2ord y 1 1;
          first_weekday = (first_day + 6) mod 7;
          week1_monday = first_day - first_weekday
      in if first_weekday > 3 then week1_monday + 7 else week1_monday)"

definition iso_to_ymd :: "int \<Rightarrow> int \<Rightarrow> int \<Rightarrow> (int \<times> int \<times> int) option" where
  "iso_to_ymd iso_year iso_week iso_day =
     (if (iso_week \<le> 0 \<or> iso_week \<ge> 53)
         \<and> \<not> (iso_week = 53
              \<and> (weekday iso_year 1 1 = 3 \<or> (weekday iso_year 1 1 = 2 \<and> is_leap iso_year)))
      then None
      else if iso_day \<le> 0 \<or> iso_day \<ge> 8 then None
      else Some (ord2ymd (iso_week1_monday iso_year + (iso_week - 1) * 7 + iso_day - 1)))"

text \<open>
  \<^verbatim>\<open>_find_isoformat_datetime_separator\<close>: where the date ends, for a text of at least
  seven bytes.  The forms of the date are \<^verbatim>\<open>YYYY-MM-DD\<close>, \<^verbatim>\<open>YYYYMMDD\<close>, \<^verbatim>\<open>YYYY-Www\<close>,
  \<^verbatim>\<open>YYYYWww\<close>, \<^verbatim>\<open>YYYY-Www-d\<close> and \<^verbatim>\<open>YYYYWwwd\<close>.
\<close>

definition find_isoformat_datetime_separator :: "string \<Rightarrow> nat option" where
  "find_isoformat_datetime_separator dtstr =
     (let len = length dtstr
      in if len = 7 then Some 7
         else if dtstr ! 4 = CHR ''-''
         then (if dtstr ! 5 = CHR ''W''
               then (if len < 8 then None
                     else if len > 8 \<and> dtstr ! 8 = CHR ''-''
                     then (if len = 9 then None
                           else if len > 10 \<and> is_digit (dtstr ! 10) then Some 8
                           else Some 10)
                     else Some 8)
               else Some 10)
         else if dtstr ! 4 = CHR ''W''
         then (let idx = 7 + length (takeWhile is_digit (drop 7 dtstr))
               in if idx < 9 then Some idx else if even idx then Some 7 else Some 8)
         else Some 8)"

text \<open>
  \<^verbatim>\<open>parse_isoformat_date\<close>, on the whole text and the length \<open>len\<close> of its date part.
\<close>

definition parse_isoformat_date :: "string \<Rightarrow> nat \<Rightarrow> (int \<times> int \<times> int) option" where
  "parse_isoformat_date dtstr len =
     (case parse_digits 4 0 dtstr of
        None \<Rightarrow> None
      | Some (y, cur0) \<Rightarrow>
          (let uses_separator = (peek cur0 = CHR ''-'');
               cur = (if uses_separator then drop 1 cur0 else cur0)
           in if peek cur = CHR ''W''
              then (case parse_digits 2 0 (drop 1 cur) of
                      None \<Rightarrow> None
                    | Some (iso_week, cur2) \<Rightarrow>
                        if length dtstr - length cur2 < len
                        then (if uses_separator \<and> peek cur2 \<noteq> CHR ''-'' then None
                              else (case parse_digits 1 0 (if uses_separator then drop 1 cur2 else cur2) of
                                      None \<Rightarrow> None
                                    | Some (iso_day, _) \<Rightarrow> iso_to_ymd y iso_week iso_day))
                        else iso_to_ymd y iso_week 1)
              else (case parse_digits 2 0 cur of
                      None \<Rightarrow> None
                    | Some (m, cur2) \<Rightarrow>
                        if uses_separator \<and> peek cur2 \<noteq> CHR ''-'' then None
                        else (case parse_digits 2 0 (if uses_separator then drop 1 cur2 else cur2) of
                                None \<Rightarrow> None
                              | Some (d, _) \<Rightarrow> Some (y, m, d)))))"

text \<open>
  The loop of \<^verbatim>\<open>parse_hh_mm_ss_ff\<close>, which reads up to three fields of two digits.
  \<open>k\<close> counts the fields still to read, \<open>sep\<close> is \<^verbatim>\<open>has_separator\<close> once the first
  field has set it, and \<open>end_len\<close> is the length of the rest at \<^verbatim>\<open>tstr_end\<close>.  The loop
  returns the fields read and either the answer of the function (whether the text goes
  on) or the position where the fraction is read.
\<close>

definition prepend :: "int \<Rightarrow> (int list \<times> 'a) option \<Rightarrow> (int list \<times> 'a) option" where
  "prepend v r = (case r of None \<Rightarrow> None | Some (vs, e) \<Rightarrow> Some (v # vs, e))"

fun parse_hh_mm_ss ::
  "nat \<Rightarrow> bool option \<Rightarrow> nat \<Rightarrow> string \<Rightarrow> (int list \<times> (bool + string)) option" where
  "parse_hh_mm_ss 0 sep end_len p = Some ([], Inr p)"
| "parse_hh_mm_ss (Suc k) sep end_len p =
     (case parse_digits 2 0 p of
        None \<Rightarrow> None
      | Some (v, q) \<Rightarrow>
          (let c = peek q;
               p' = drop 1 q;
               has_separator = (case sep of None \<Rightarrow> c = CHR '':'' | Some b \<Rightarrow> b)
           in if length p' \<le> end_len then Some ([v], Inl (c \<noteq> NUL))
              else if has_separator \<and> c = CHR '':''
              then prepend v (parse_hh_mm_ss k (Some has_separator) end_len p')
              else if c = CHR ''.'' \<or> c = CHR '',''  then Some ([v], Inr p')
              else if \<not> has_separator
              then prepend v (parse_hh_mm_ss k (Some has_separator) end_len q)
              else None))"

definition nth_field :: "int list \<Rightarrow> nat \<Rightarrow> int" where
  "nth_field vals i = (if i < length vals then vals ! i else 0)"

definition correction :: "int list" where
  "correction = [100000, 10000, 1000, 100, 10]"

text \<open>
  \<^verbatim>\<open>parse_hh_mm_ss_ff\<close>: the fields, then a fraction of up to six digits after a point
  or a comma; further digits are skipped.  The second component of the result says
  whether the text goes on after what was read.
\<close>

definition parse_hh_mm_ss_ff ::
  "string \<Rightarrow> nat \<Rightarrow> ((int \<times> int \<times> int \<times> int) \<times> bool) option" where
  "parse_hh_mm_ss_ff tstr end_len =
     (case parse_hh_mm_ss 3 None end_len tstr of
        None \<Rightarrow> None
      | Some (vals, Inl goes_on) \<Rightarrow> Some ((nth_field vals 0, nth_field vals 1, nth_field vals 2, 0), goes_on)
      | Some (vals, Inr p) \<Rightarrow>
          (let len_remains = length p - end_len;
               to_parse = (if len_remains \<ge> 6 then 6 else len_remains)
           in case parse_digits to_parse 0 p of
                None \<Rightarrow> None
              | Some (us, q) \<Rightarrow>
                  Some ((nth_field vals 0, nth_field vals 1, nth_field vals 2,
                         if to_parse < 6 then us * correction ! (to_parse - 1) else us),
                        peek (dropWhile is_digit q) \<noteq> NUL)))"

text \<open>
  \<^verbatim>\<open>parse_isoformat_time\<close>: the time of day up to the first \<^verbatim>\<open>Z\<close>, \<^verbatim>\<open>+\<close> or \<^verbatim>\<open>-\<close>, then
  the offset, as seconds and microseconds with the sign applied.
\<close>

definition is_tz_start :: "char \<Rightarrow> bool" where
  "is_tz_start c = (c = CHR ''Z'' \<or> c = CHR ''+'' \<or> c = CHR ''-'')"

definition parse_isoformat_time ::
  "string \<Rightarrow> ((int \<times> int \<times> int \<times> int) \<times> (int \<times> int) option) option" where
  "parse_isoformat_time dtstr =
     (let tzpart = dropWhile (\<lambda>c. \<not> is_tz_start c) dtstr
      in case parse_hh_mm_ss_ff dtstr (length tzpart) of
           None \<Rightarrow> None
         | Some (tc, goes_on) \<Rightarrow>
             (case tzpart of
                [] \<Rightarrow> if goes_on then None else Some (tc, None)
              | c # tzstr \<Rightarrow>
                  if c = CHR ''Z''
                  then (if peek tzstr \<noteq> NUL then None else Some (tc, Some (0, 0)))
                  else (case parse_hh_mm_ss_ff tzstr 0 of
                          None \<Rightarrow> None
                        | Some ((h, m, s, us), goes_on') \<Rightarrow>
                            if goes_on' then None
                            else (let tzsign = (if c = CHR ''-'' then - 1 else 1)
                                  in Some (tc, Some (tzsign * (h * 3600 + m * 60 + s), tzsign * us))))))"

text \<open>
  \<^verbatim>\<open>tzinfo_from_isoformat_results\<close>: no offset gives a naive datetime, an offset of zero
  seconds is \<^verbatim>\<open>timezone.utc\<close>, and \<^verbatim>\<open>timezone(...)\<close> refuses an offset of a day or more.
\<close>

definition tzinfo_from_isoformat_results :: "(int \<times> int) option \<Rightarrow> py_exception + timedelta option" where
  "tzinfo_from_isoformat_results tz =
     (case tz of
        None \<Rightarrow> Inr None
      | Some (tzoffset, tz_useconds) \<Rightarrow>
          if tzoffset = 0 then Inr (Some 0)
          else (let delta = tzoffset * SECOND + tz_useconds
                in if - DAY < delta \<and> delta < DAY then Inr (Some delta) else Inl ValueError))"

text \<open>The number of bytes of the character that separates date and time.\<close>

definition separator_width :: "char \<Rightarrow> nat" where
  "separator_width c =
     (let b = (of_char c :: int)
      in if b < 128 then 1 else if b div 16 = 14 then 3 else if b div 16 = 15 then 4 else 2)"

definition fromisoformat :: "string \<Rightarrow> py_exception + datetime" where
  "fromisoformat dtstr =
     (if length dtstr < 7 then Inl ValueError
      else (case find_isoformat_datetime_separator dtstr of
              None \<Rightarrow> Inl ValueError
            | Some separator_location \<Rightarrow>
                (case parse_isoformat_date dtstr separator_location of
                   None \<Rightarrow> Inl ValueError
                 | Some (y, m, d) \<Rightarrow>
                     (case (if length dtstr > separator_location
                            then parse_isoformat_time
                                   (drop (separator_location
                                            + separator_width (dtstr ! separator_location)) dtstr)
                            else Some ((0, 0, 0, 0), None)) of
                        None \<Rightarrow> Inl ValueError
                      | Some ((hh, mi, ss, us), tz) \<Rightarrow>
                          (case tzinfo_from_isoformat_results tz of
                             Inl e \<Rightarrow> Inl e
                           | Inr tzi \<Rightarrow> new_datetime y m d hh mi ss us tzi)))))"

section \<open>Time zones of \<^verbatim>\<open>pytz\<close>\<close>

text \<open>
  A \<^verbatim>\<open>pytz\<close> zone is known to the program through \<^verbatim>\<open>astimezone\<close> only.  What decides
  the result is the zone's UTC offset in force at a given UTC wall time, in whole
  seconds (\<^verbatim>\<open>pytz\<close> keeps offsets as whole seconds); the zone is that function.
\<close>

type_synonym zone = "datetime \<Rightarrow> int"

definition pytz_UTC :: zone where
  "pytz_UTC = (\<lambda>t. 0)"

text \<open>
  \<^verbatim>\<open>tz.fromutc(utc)\<close> of the \<^verbatim>\<open>pytz\<close> classes: the UTC wall time plus the offset in
  force, carrying a \<^verbatim>\<open>tzinfo\<close> of that offset.
\<close>

definition fromutc :: "zone \<Rightarrow> datetime \<Rightarrow> py_exception + datetime" where
  "fromutc tz utc =
     (let off = tz (utc\<lparr>tzinfo := None\<rparr>) * SECOND
      in case datetime_add utc off of
           Inl e \<Rightarrow> Inl e
         | Inr t \<Rightarrow> Inr (t\<lparr>tzinfo := Some off\<rparr>))"

text \<open>
  \<^verbatim>\<open>self.astimezone(tz)\<close> for an aware \<^verbatim>\<open>self\<close>:
  \<^verbatim>\<open>utc = (self - myoffset).replace(tzinfo=tz); return tz.fromutc(utc)\<close>.
  The program calls it on a datetime that carries \<^verbatim>\<open>timezone.utc\<close>; a naive \<^verbatim>\<open>self\<close>
  (which Python would read in the machine's local zone) does not occur and is
  refused here.
\<close>

definition astimezone :: "datetime \<Rightarrow> zone \<Rightarrow> py_exception + datetime" where
  "astimezone t tz =
     (case utcoffset t of
        Inl e \<Rightarrow> Inl e
      | Inr None \<Rightarrow> Inl TypeError
      | Inr (Some myoffset) \<Rightarrow>
          (case datetime_add t (- myoffset) of
             Inl e \<Rightarrow> Inl e
           | Inr utc \<Rightarrow> fromutc tz utc))"

section \<open>Readings\<close>

text \<open>
  A reading is one record of \<^verbatim>\<open>df.to_dict(orient='records')\<close>: a dictionary from
  column names to values, kept in insertion order.  The values that matter are
  strings, \<^verbatim>\<open>None\<close>, floats, and objects that are none of these (a pandas time stamp).
\<close>

datatype pyval = VNone | VStr string | VFloat pyfloat | VObject

type_synonym entry = "(string \<times> pyval) list"

text \<open>Python's truth value of a value.\<close>

fun truthy :: "pyval \<Rightarrow> bool" where
  "truthy VNone = False"
| "truthy (VStr s) = (s \<noteq> [])"
| "truthy (VFloat x) = (x \<noteq> Finite 0)"
| "truthy VObject = True"

text \<open>
  The body of the \<^verbatim>\<open>try\<close> of lines 141--144, for one value of \<^verbatim>\<open>validdate\<close>.
  \<^verbatim>\<open>fromisoformat\<close> raises \<^verbatim>\<open>TypeError\<close> for an argument that is not a string.
\<close>

definition convert_validdate :: "zone \<Rightarrow> pyval \<Rightarrow> py_exception + string" where
  "convert_validdate local_tz v =
     (case v of
        VStr s \<Rightarrow>
          (case fromisoformat s of
             Inl e \<Rightarrow> Inl e
           | Inr parsed \<Rightarrow>
               (let utc_time = parsed\<lparr>tzinfo := Some 0\<rparr>
                in case astimezone utc_time local_tz of
                     Inl e \<Rightarrow> Inl e
                   | Inr local_time \<Rightarrow> isoformat local_time))
      | _ \<Rightarrow> Inl TypeError)"

text \<open>
  One turn of the loop of lines 138--150.  \<^verbatim>\<open>entry['validdate'] = x\<close> replaces the
  value in place, or appends the key when it is missing.
\<close>

definition localize_entry :: "zone \<Rightarrow> entry \<Rightarrow> entry" where
  "localize_entry local_tz entry =
     (case map_of entry ''validdate'' of
        Some v \<Rightarrow>
          if truthy v
          then (case convert_validdate local_tz v of
                  Inr s \<Rightarrow> AList.update ''validdate'' (VStr s) entry
                | Inl e \<Rightarrow> AList.update ''validdate'' VNone entry)
          else AList.update ''validdate'' VNone entry
      | None \<Rightarrow> AList.update ''validdate'' VNone entry)"

text \<open>The loop, over the records in order.\<close>

fun localize_all :: "zone \<Rightarrow> entry list \<Rightarrow> entry list" where
  "localize_all local_tz [] = []"
| "localize_all local_tz (entry # rest) = localize_entry local_tz entry # localize_all local_tz rest"

section \<open>The world outside the module\<close>

text \<open>
  The arguments of \<^verbatim>\<open>api.query_time_series\<close> as the program passes them
  (lines 99--108).
\<close>

record query =
  q_coordinates :: "coordinate list"
  q_startdate :: datetime
  q_enddate :: datetime
  q_interval :: timedelta
  q_parameters :: "string list"
  q_username :: pyobj
  q_password :: pyobj
  q_model :: string

text \<open>
  The calls that leave the process: the forecast provider, and the geographic time
  zone lookup \<^verbatim>\<open>tf.timezone_at(lng=..., lat=...)\<close>.
\<close>

datatype upstream_call = QueryTimeSeries query | TimezoneAt pyfloat pyfloat

text \<open>
  What the module does not define is a parameter of the model:
  \<^item> \<open>float_of_str\<close> is Python's \<^verbatim>\<open>float\<close> on a string, \<open>None\<close> for \<^verbatim>\<open>ValueError\<close>;
  \<^item> \<open>clock\<close> is the wall time in UTC when the request is handled;
  \<^item> \<open>query_time_series\<close> is the provider call followed by \<^verbatim>\<open>reset_index\<close> and
    \<^verbatim>\<open>to_dict(orient='records')\<close>: the records, or \<open>Inl\<close> the text \<^verbatim>\<open>str(e)\<close> of the
    exception the call raised;
  \<^item> \<open>timezone_at lng lat\<close> is the lookup, which returns a name or \<^verbatim>\<open>None\<close>, or raises;
  \<^item> \<open>pytz_timezone\<close> is \<^verbatim>\<open>pytz.timezone\<close>, which raises \<^verbatim>\<open>UnknownTimeZoneError\<close> for
    a name that is not in its database.
\<close>

record world =
  float_of_str :: "string \<Rightarrow> pyfloat option"
  clock :: datetime
  query_time_series :: "query \<Rightarrow> string + entry list"
  timezone_at :: "pyfloat \<Rightarrow> pyfloat \<Rightarrow> py_exception + string option"
  pytz_timezone :: "string \<Rightarrow> py_exception + zone"

text \<open>\<^verbatim>\<open>dt.datetime.now(dt.timezone.utc)\<close>.\<close>

definition datetime_now_utc :: "world \<Rightarrow> datetime" where
  "datetime_now_utc w = (clock w)\<lparr>tzinfo := Some 0\<rparr>"

section \<open>The routes\<close>

text \<open>
  A response is the JSON body and the HTTP status.  A route returns its response, or
  raises an exception it does not catch (which Flask answers with status 500), together
  with the upstream calls it made, in order.
\<close>

datatype json = CityNames "string list" | ErrorJson string | WeatherJson "entry list" string

type_synonym response = "json \<times> int"

type_synonym outcome = "(py_exception + response) \<times> upstream_call list"

text \<open>\<^verbatim>\<open>GET /cities\<close> (lines 43--46).\<close>

definition get_cities :: response where
  "get_cities = (CityNames (map fst cities), 200)"

text \<open>The query arguments of \<^verbatim>\<open>GET /weather\<close>: \<^verbatim>\<open>request.args.get\<close> gives a string or \<^verbatim>\<open>None\<close>.\<close>

record request_args =
  arg_city :: "string option"
  arg_lat :: "string option"
  arg_lon :: "string option"

text \<open>
  The truth value of such an argument: supplied and not empty.  \<open>arg_text\<close> is the
  string of an argument that has one.
\<close>

definition arg_truthy :: "string option \<Rightarrow> bool" where
  "arg_truthy a = (case a of None \<Rightarrow> False | Some s \<Rightarrow> s \<noteq> [])"

definition arg_text :: "string option \<Rightarrow> string" where
  "arg_text a = (case a of None \<Rightarrow> [] | Some s \<Rightarrow> s)"

text \<open>
  Lines 76--90: the coordinates of the request, or the 400 response.
\<close>

definition resolve_coordinates ::
  "world \<Rightarrow> request_args \<Rightarrow> py_exception + (response + coordinate list)" where
  "resolve_coordinates w req =
     (if arg_truthy (arg_city req)
      then (case city_coordinate (arg_text (arg_city req)) of
              Inl e \<Rightarrow> Inl e
            | Inr c \<Rightarrow> Inr (Inr [c]))
      else if arg_truthy (arg_lat req) \<and> arg_truthy (arg_lon req)
      then (case float_of_str w (arg_text (arg_lat req)) of
              None \<Rightarrow> Inr (Inl (ErrorJson ''Invalid latitude or longitude'', 400))
            | Some lat \<Rightarrow>
                (case float_of_str w (arg_text (arg_lon req)) of
                   None \<Rightarrow> Inr (Inl (ErrorJson ''Invalid latitude or longitude'', 400))
                 | Some lon \<Rightarrow> Inr (Inr [(lat, lon)])))
      else Inr (Inl (ErrorJson ''City or coordinates required'', 400)))"

text \<open>
  Lines 92--94.  \<^verbatim>\<open>replace\<close> builds a new datetime through the constructor.
\<close>

definition replace_minute_second_microsecond ::
  "datetime \<Rightarrow> int \<Rightarrow> int \<Rightarrow> int \<Rightarrow> py_exception + datetime" where
  "replace_minute_second_microsecond t mi ss us =
     new_datetime (year t) (month t) (day t) (hour t) mi ss us (tzinfo t)"

definition forecast_window :: "datetime \<Rightarrow> py_exception + (datetime \<times> datetime \<times> timedelta)" where
  "forecast_window now =
     (case replace_minute_second_microsecond now 0 0 0 of
        Inl e \<Rightarrow> Inl e
      | Inr startdate \<Rightarrow>
          (case datetime_add startdate (1 * DAY) of
             Inl e \<Rightarrow> Inl e
           | Inr enddate \<Rightarrow> Inr (startdate, enddate, 1 * HOUR)))"

text \<open>Lines 120--123: the coordinate whose time zone is looked up.\<close>

definition timezone_coordinate ::
  "string option \<Rightarrow> coordinate list \<Rightarrow> py_exception + coordinate" where
  "timezone_coordinate city coordinates =
     (if arg_truthy city then city_coordinate (arg_text city)
      else (case coordinates of [] \<Rightarrow> Inl IndexError | c # _ \<Rightarrow> Inr c))"

text \<open>Lines 127--129: \<^verbatim>\<open>if not timezone_str: timezone_str = 'UTC'\<close>.\<close>

definition timezone_or_UTC :: "string option \<Rightarrow> string" where
  "timezone_or_UTC found = (if arg_truthy found then arg_text found else ''UTC'')"

text \<open>Lines 131--135: only \<^verbatim>\<open>UnknownTimeZoneError\<close> is caught.\<close>

definition local_timezone :: "world \<Rightarrow> string \<Rightarrow> py_exception + zone" where
  "local_timezone w timezone_str =
     (case pytz_timezone w timezone_str of
        Inr tz \<Rightarrow> Inr tz
      | Inl e \<Rightarrow> if e = UnknownTimeZoneError then Inr pytz_UTC else Inl e)"

text \<open>
  Lines 92--156, what the route does once it has its coordinates.  \<open>city\<close> is the
  query argument, which line 120 tests again.
\<close>

definition weather_for :: "world \<Rightarrow> globals \<Rightarrow> string option \<Rightarrow> coordinate list \<Rightarrow> outcome" where
  "weather_for w g city coordinates =
     (case forecast_window (datetime_now_utc w) of
        Inl e \<Rightarrow> (Inl e, [])
      | Inr (startdate, enddate, interval) \<Rightarrow>
          (let q = \<lparr>q_coordinates = coordinates, q_startdate = startdate,
                     q_enddate = enddate, q_interval = interval,
                     q_parameters = parameters, q_username = username g,
                     q_password = password g, q_model = ''mix''\<rparr>
           in case query_time_series w q of
                Inl msg \<Rightarrow> (Inr (ErrorJson msg, 500), [QueryTimeSeries q])
              | Inr weather_data \<Rightarrow>
                  (case timezone_coordinate city coordinates of
                     Inl e \<Rightarrow> (Inl e, [QueryTimeSeries q])
                   | Inr coord \<Rightarrow>
                       (let calls = [QueryTimeSeries q, TimezoneAt (snd coord) (fst coord)]
                        in case timezone_at w (snd coord) (fst coord) of
                             Inl e \<Rightarrow> (Inl e, calls)
                           | Inr found \<Rightarrow>
                               (let timezone_str = timezone_or_UTC found
                                in case local_timezone w timezone_str of
                                     Inl e \<Rightarrow> (Inl e, calls)
                                   | Inr local_tz \<Rightarrow>
                                       (Inr (WeatherJson (localize_all local_tz weather_data)
                                               timezone_str, 200),
                                        calls))))))"

text \<open>\<^verbatim>\<open>GET /weather\<close> (lines 68--156).\<close>

definition get_weather :: "world \<Rightarrow> globals \<Rightarrow> request_args \<Rightarrow> outcome" where
  "get_weather w g req =
     (case resolve_coordinates w req of
        Inl e \<Rightarrow> (Inl e, [])
      | Inr (Inl refused) \<Rightarrow> (Inr refused, [])
      | Inr (Inr coordinates) \<Rightarrow> weather_for w g (arg_city req) coordinates)"

text \<open>The coordinates an outcome submitted to the forecast provider.\<close>

fun submitted_coordinates :: "upstream_call list \<Rightarrow> coordinate list" where
  "submitted_coordinates [] = []"
| "submitted_coordinates (QueryTimeSeries q # cs) = q_coordinates q @ submitted_coordinates cs"
| "submitted_coordinates (TimezoneAt lng lat # cs) = submitted_coordinates cs"

section \<open>Sample inputs\<close>

text \<open>
  Concrete inputs on which the results below are evaluated.  \<open>plain_decimal\<close> stands
  in for Python's \<^verbatim>\<open>float\<close> in the sample world only: it reads the plain decimals (an
  optional sign, digits, and optionally a point and digits) with their exact value and
  refuses every other string, whereas \<^verbatim>\<open>float\<close> rounds to the nearest double and also
  reads exponents, \<^verbatim>\<open>inf\<close> and \<^verbatim>\<open>nan\<close>.  The samples below are decimals that a double
  holds exactly, or a text that neither reads.  The sample world answers every
  forecast query with three records, the second with a time stamp that is no date and
  the third with none, and knows three time zones, each with one fixed offset.
\<close>

definition digits_value :: "string \<Rightarrow> int option" where
  "digits_value s =
     (if s = [] then None
      else (case parse_digits (length s) 0 s of None \<Rightarrow> None | Some (v, _) \<Rightarrow> Some v))"

definition plain_decimal :: "string \<Rightarrow> pyfloat option" where
  "plain_decimal s =
     (let negative = (take 1 s = ''-'');
          body = (if take 1 s = ''-'' \<or> take 1 s = ''+'' then drop 1 s else s);
          whole = takeWhile (\<lambda>c. c \<noteq> CHR ''.'') body;
          rest = dropWhile (\<lambda>c. c \<noteq> CHR ''.'') body;
          signed = (\<lambda>r :: real. if negative then - r else r)
      in case digits_value whole of
           None \<Rightarrow> None
         | Some n \<Rightarrow>
             (case rest of
                [] \<Rightarrow> Some (Finite (signed (real_of_int n)))
              | _ # fr \<Rightarrow>
                  (case digits_value fr of
                     None \<Rightarrow> None
                   | Some f \<Rightarrow> Some (Finite (signed (real_of_int n + real_of_int f / 10 ^ length fr))))))"

definition sample_clock :: datetime where
  "sample_clock = \<lparr>year = 2024, month = 2, day = 29, hour = 13, minute = 45, second = 12,
                    microsecond = 345, tzinfo = None\<rparr>"

definition sample_rows :: "entry list" where
  "sample_rows =
     [[(''validdate'', VStr ''2024-02-29T23:00:00+00:00''), (''t_2m:C'', VFloat (Finite 3.5))],
      [(''validdate'', VStr ''not a date''), (''t_2m:C'', VFloat (Finite 4))],
      [(''t_2m:C'', VFloat (Finite 4.5))]]"

definition sample_zones :: "string \<Rightarrow> py_exception + zone" where
  "sample_zones name =
     (if name = ''UTC'' then Inr pytz_UTC
      else if name = ''America/Indiana/Indianapolis'' then Inr (\<lambda>t. - 18000)
      else if name = ''Asia/Kolkata'' then Inr (\<lambda>t. 19800)
      else Inl UnknownTimeZoneError)"

definition sample_world :: "string option \<Rightarrow> world" where
  "sample_world found =
     \<lparr>float_of_str = plain_decimal,
      clock = sample_clock,
      query_time_series = (\<lambda>q. Inr sample_rows),
      timezone_at = (\<lambda>lng lat. Inr found),
      pytz_timezone = sample_zones\<rparr>"

definition sample_globals :: globals where
  "sample_globals = \<lparr>username = StrOrNone (Some ''user''), password = StrOrNone (Some ''secret'')\<rparr>"

section \<open>Module initialisation: results\<close>

text \<open>
  Claim C1.  The claim says that credentials are not examined when the process starts
  and that a missing credential only shows as a provider error when a forecast is
  fetched.  The module as written does not get that far: for every environment, with
  or without the two variables, importing the module raises \<^verbatim>\<open>AttributeError\<close> at
  line 20, because \<^verbatim>\<open>os.getenv\<close> is a function and has no attribute \<^verbatim>\<open>getenv\<close>.
\<close>

theorem module_init_raises_AttributeError:
  "module_init env = Inl AttributeError"
  by (simp add: module_init_def function_getattr_def function_attributes_def)

section \<open>Resolving the input (lines 76--90)\<close>

lemma city_coordinate_total:
  "city_coordinate name = Inr (dict_get cities name (Finite 39.165325, Finite (- 86.52638569999999)))"
  by (simp add: city_coordinate_def dict_subscript_def cities_def)

lemma resolve_coordinates_cases:
  "resolve_coordinates w req =
     (if arg_truthy (arg_city req)
      then Inr (Inr [dict_get cities (arg_text (arg_city req)) (Finite 39.165325, Finite (- 86.52638569999999))])
      else if arg_truthy (arg_lat req) \<and> arg_truthy (arg_lon req)
      then (case float_of_str w (arg_text (arg_lat req)) of
              None \<Rightarrow> Inr (Inl (ErrorJson ''Invalid latitude or longitude'', 400))
            | Some lat \<Rightarrow>
                (case float_of_str w (arg_text (arg_lon req)) of
                   None \<Rightarrow> Inr (Inl (ErrorJson ''Invalid latitude or longitude'', 400))
                 | Some lon \<Rightarrow> Inr (Inr [(lat, lon)])))
      else Inr (Inl (ErrorJson ''City or coordinates required'', 400)))"
  by (simp add: resolve_coordinates_def city_coordinate_total)

lemma submitted_weather_for:
  "submitted_coordinates (snd (weather_for w g city cs)) = cs
   \<or> submitted_coordinates (snd (weather_for w g city cs)) = []"
  by (auto simp: weather_for_def Let_def split: sum.splits prod.splits)

lemma submitted_subset:
  "set (submitted_coordinates (snd (weather_for w g city cs))) \<subseteq> set cs"
  using submitted_weather_for[of w g city cs] by auto

text \<open>
  Claim C3.  The input of a weather request is resolved by the first branch that
  matches.  An argument counts as present when it is supplied and not empty, which is
  the test the route applies (\<^verbatim>\<open>if city:\<close>, \<^verbatim>\<open>elif lat and lon:\<close>).  With a city the
  route goes on with the registry's coordinate for it and does not look at \<^verbatim>\<open>lat\<close> and
  \<^verbatim>\<open>lon\<close>; otherwise, with both \<^verbatim>\<open>lat\<close> and \<^verbatim>\<open>lon\<close>, it goes on with the parsed pair;
  otherwise it answers 400 with an error body and has made no upstream call.
\<close>

theorem get_weather_input_resolution:
  "get_weather w g req =
     (if arg_truthy (arg_city req)
      then weather_for w g (arg_city req)
             [dict_get cities (arg_text (arg_city req)) (Finite 39.165325, Finite (- 86.52638569999999))]
      else if arg_truthy (arg_lat req) \<and> arg_truthy (arg_lon req)
      then (case float_of_str w (arg_text (arg_lat req)) of
              None \<Rightarrow> (Inr (ErrorJson ''Invalid latitude or longitude'', 400), [])
            | Some lat \<Rightarrow>
                (case float_of_str w (arg_text (arg_lon req)) of
                   None \<Rightarrow> (Inr (ErrorJson ''Invalid latitude or longitude'', 400), [])
                 | Some lon \<Rightarrow> weather_for w g (arg_city req) [(lat, lon)]))
      else (Inr (ErrorJson ''City or coordinates required'', 400), []))
   \<and> (arg_truthy (arg_city req) \<longrightarrow>
        get_weather w g (req\<lparr>arg_lat := la, arg_lon := lo\<rparr>) = get_weather w g req)"
  by (simp add: get_weather_def resolve_coordinates_cases split: option.splits)

theorem get_weather_input_resolution_witness:
  "get_weather (sample_world None) sample_globals
     \<lparr>arg_city = Some ''Chicago'', arg_lat = Some ''91'', arg_lon = Some ''0''\<rparr>
   = weather_for (sample_world None) sample_globals (Some ''Chicago'')
       [(Finite 41.8781, Finite (- 87.6298))]
   \<and> get_weather (sample_world None) sample_globals
        \<lparr>arg_city = Some ''Chicago'', arg_lat = None, arg_lon = None\<rparr>
     = get_weather (sample_world None) sample_globals
        \<lparr>arg_city = Some ''Chicago'', arg_lat = Some ''91'', arg_lon = Some ''0''\<rparr>
   \<and> get_weather (sample_world None) sample_globals
        \<lparr>arg_city = None, arg_lat = Some ''91'', arg_lon = Some ''0''\<rparr>
     = weather_for (sample_world None) sample_globals None [(Finite 91, Finite 0)]
   \<and> get_weather (sample_world None) sample_globals
        \<lparr>arg_city = None, arg_lat = Some ''91'', arg_lon = None\<rparr>
     = (Inr (ErrorJson ''City or coordinates required'', 400), [])"
proof -
  have f: "float_of_str (sample_world None) ''91'' = Some (Finite 91)"
          "float_of_str (sample_world None) ''0'' = Some (Finite 0)"
    by (simp_all add: sample_world_def plain_decimal_def digits_value_def digit_val_def)
  show ?thesis
    using
      get_weather_input_resolution[of "sample_world None" sample_globals
        "\<lparr>arg_city = Some ''Chicago'', arg_lat = Some ''91'', arg_lon = Some ''0''\<rparr>" None None]
      get_weather_input_resolution[of "sample_world None" sample_globals
        "\<lparr>arg_city = None, arg_lat = Some ''91'', arg_lon = Some ''0''\<rparr>" None None]
      get_weather_input_resolution[of "sample_world None" sample_globals
        "\<lparr>arg_city = None, arg_lat = Some ''91'', arg_lon = None\<rparr>" None None]
    by (simp add: arg_truthy_def arg_text_def dict_get_def cities_def f)
qed

text \<open>
  Claim C4.  A registered city resolves to its stored coordinate, any other name to
  Bloomington's, and the lookup never raises.  A request for an unregistered city has
  the outcome of the same request for Bloomington, and the time zone in its response
  is the one looked up at Bloomington's coordinate.
\<close>

theorem city_resolution:
  "(map_of cities name = Some c \<longrightarrow> city_coordinate name = Inr c)
   \<and> (map_of cities name = None \<longrightarrow>
        city_coordinate name = Inr (Finite 39.165325, Finite (- 86.52638569999999))
        \<and> map_of cities ''Bloomington'' = Some (Finite 39.165325, Finite (- 86.52638569999999))
        \<and> (name \<noteq> [] \<longrightarrow>
             get_weather w g \<lparr>arg_city = Some name, arg_lat = la, arg_lon = lo\<rparr>
               = get_weather w g \<lparr>arg_city = Some ''Bloomington'', arg_lat = la, arg_lon = lo\<rparr>
             \<and> (fst (get_weather w g \<lparr>arg_city = Some name, arg_lat = la, arg_lon = lo\<rparr>)
                    = Inr (WeatherJson rows tz, status) \<longrightarrow>
                  (\<exists>found. timezone_at w (Finite (- 86.52638569999999)) (Finite 39.165325) = Inr found
                     \<and> tz = timezone_or_UTC found))))
   \<and> (\<exists>c'. city_coordinate name = Inr c')"
proof -
  have a: "map_of cities name = Some c \<Longrightarrow> city_coordinate name = Inr c"
    by (simp add: city_coordinate_total dict_get_def)
  have b: "map_of cities name = None \<Longrightarrow>
        city_coordinate name = Inr (Finite 39.165325, Finite (- 86.52638569999999))"
    by (simp add: city_coordinate_total dict_get_def)
  have b': "map_of cities ''Bloomington'' = Some (Finite 39.165325, Finite (- 86.52638569999999))"
    by (simp add: cities_def)
  have tzc: "timezone_coordinate (Some n) cs = Inr (dict_get cities n (Finite 39.165325, Finite (- 86.52638569999999)))"
    if "n \<noteq> []" for n cs
    using that by (simp add: timezone_coordinate_def arg_truthy_def arg_text_def city_coordinate_total)
  have wf: "weather_for w g (Some n) cs = weather_for w g (Some n') cs"
    if "n \<noteq> []" "n' \<noteq> []" "dict_get cities n (Finite 39.165325, Finite (- 86.52638569999999)) = dict_get cities n' (Finite 39.165325, Finite (- 86.52638569999999))" for n n' cs
    unfolding weather_for_def tzc[OF that(1)] tzc[OF that(2)] that(3) ..
  have c: "get_weather w g \<lparr>arg_city = Some name, arg_lat = la, arg_lon = lo\<rparr>
               = get_weather w g \<lparr>arg_city = Some ''Bloomington'', arg_lat = la, arg_lon = lo\<rparr>"
    if "map_of cities name = None" "name \<noteq> []"
  proof -
    have "dict_get cities name (Finite 39.165325, Finite (- 86.52638569999999))
          = dict_get cities ''Bloomington'' (Finite 39.165325, Finite (- 86.52638569999999))"
      using that(1) b' by (simp add: dict_get_def)
    then show ?thesis
      using that(2) wf[of name "''Bloomington''"]
      by (simp add: get_weather_def resolve_coordinates_cases arg_truthy_def arg_text_def)
  qed
  have d: "\<exists>found. timezone_at w (Finite (- 86.52638569999999)) (Finite 39.165325) = Inr found
                     \<and> tz = timezone_or_UTC found"
    if "map_of cities name = None" "name \<noteq> []"
       "fst (get_weather w g \<lparr>arg_city = Some name, arg_lat = la, arg_lon = lo\<rparr>) = Inr (WeatherJson rows tz, status)"
    using that
    by (auto simp: get_weather_def resolve_coordinates_cases arg_truthy_def arg_text_def
          weather_for_def tzc dict_get_def Let_def split: sum.splits prod.splits)
  show ?thesis using a b b' c d by (simp add: city_coordinate_total)
qed

lemma sample_eval_indy:
  "fst (get_weather (sample_world (Some ''America/Indiana/Indianapolis'')) sample_globals
     \<lparr>arg_city = Some ''Atlantis'', arg_lat = None, arg_lon = None\<rparr>)
   = Inr (WeatherJson
        [[(''validdate'', VStr ''2024-02-29T18:00:00-05:00''), (''t_2m:C'', VFloat (Finite 3.5))],
         [(''validdate'', VNone), (''t_2m:C'', VFloat (Finite 4))],
         [(''t_2m:C'', VFloat (Finite 4.5)), (''validdate'', VNone)]]
        ''America/Indiana/Indianapolis'', 200)"
  by code_simp

theorem city_resolution_witness:
  "city_coordinate ''Chicago'' = Inr (Finite 41.8781, Finite (- 87.6298))
   \<and> city_coordinate ''Atlantis'' = Inr (Finite 39.165325, Finite (- 86.52638569999999))
   \<and> get_weather (sample_world (Some ''America/Indiana/Indianapolis'')) sample_globals
         \<lparr>arg_city = Some ''Atlantis'', arg_lat = None, arg_lon = None\<rparr>
       = get_weather (sample_world (Some ''America/Indiana/Indianapolis'')) sample_globals
         \<lparr>arg_city = Some ''Bloomington'', arg_lat = None, arg_lon = None\<rparr>
   \<and> (\<exists>found. timezone_at (sample_world (Some ''America/Indiana/Indianapolis''))
                  (Finite (- 86.52638569999999)) (Finite 39.165325) = Inr found
          \<and> ''America/Indiana/Indianapolis'' = timezone_or_UTC found)"
proof -
  have k: "map_of cities ''Chicago'' = Some (Finite 41.8781, Finite (- 87.6298))"
          "map_of cities ''Atlantis'' = None"
    by (simp_all add: cities_def)
  show ?thesis
    using city_resolution[of "''Chicago''" "(Finite 41.8781, Finite (- 87.6298))"]
      city_resolution[of "''Atlantis''" _ "sample_world (Some ''America/Indiana/Indianapolis'')"
        sample_globals None None _ "''America/Indiana/Indianapolis''" 200, OF ]
      k sample_eval_indy
    by simp
qed

text \<open>
  Claim C5.  On the coordinate branch (no city, \<^verbatim>\<open>lat\<close> and \<^verbatim>\<open>lon\<close> both present):
  when both strings parse, the coordinate is exactly the parsed pair and nothing else
  is submitted to the provider; when either does not parse, the response is 400 with
  the body \<^verbatim>\<open>{error: "Invalid latitude or longitude"}\<close> and no upstream call is made.
\<close>

theorem coordinate_resolution:
  assumes "\<not> arg_truthy (arg_city req)" "arg_truthy (arg_lat req)" "arg_truthy (arg_lon req)"
  shows "(case (float_of_str w (arg_text (arg_lat req)), float_of_str w (arg_text (arg_lon req))) of
            (Some lat, Some lon) \<Rightarrow>
              resolve_coordinates w req = Inr (Inr [(lat, lon)])
              \<and> get_weather w g req = weather_for w g (arg_city req) [(lat, lon)]
              \<and> set (submitted_coordinates (snd (get_weather w g req))) \<subseteq> {(lat, lon)}
          | _ \<Rightarrow> get_weather w g req = (Inr (ErrorJson ''Invalid latitude or longitude'', 400), []))"
proof (cases "float_of_str w (arg_text (arg_lat req))")
  case None
  then show ?thesis using assms by (simp add: get_weather_def resolve_coordinates_cases)
next
  case lat: (Some lat)
  show ?thesis
  proof (cases "float_of_str w (arg_text (arg_lon req))")
    case None
    then show ?thesis using assms lat by (simp add: get_weather_def resolve_coordinates_cases)
  next
    case (Some lon)
    then show ?thesis
      using assms lat submitted_subset[of w g "arg_city req" "[(lat, lon)]"]
      by (simp add: get_weather_def resolve_coordinates_cases)
  qed
qed

lemma sample_floats:
  "plain_decimal ''91'' = Some (Finite 91)"
  "plain_decimal ''0'' = Some (Finite 0)"
  "plain_decimal ''40.5'' = Some (Finite 40.5)"
  "plain_decimal ''-86.25'' = Some (Finite (- 86.25))"
  "plain_decimal ''abc'' = None"
  "plain_decimal ''10'' = Some (Finite 10)"
  by (simp_all add: plain_decimal_def digits_value_def digit_val_def)

lemma sample_window:
  "forecast_window (datetime_now_utc (sample_world found))
     = Inr (\<lparr>year = 2024, month = 2, day = 29, hour = 13, minute = 0, second = 0,
              microsecond = 0, tzinfo = Some 0\<rparr>,
            \<lparr>year = 2024, month = 3, day = 1, hour = 13, minute = 0, second = 0,
              microsecond = 0, tzinfo = Some 0\<rparr>,
            3600000000)"
proof -
  have "forecast_window ((clock (sample_world found))\<lparr>tzinfo := Some 0\<rparr>)
     = Inr (\<lparr>year = 2024, month = 2, day = 29, hour = 13, minute = 0, second = 0,
              microsecond = 0, tzinfo = Some 0\<rparr>,
            \<lparr>year = 2024, month = 3, day = 1, hour = 13, minute = 0, second = 0,
              microsecond = 0, tzinfo = Some 0\<rparr>,
            3600000000)"
    unfolding sample_world_def by code_simp
  then show ?thesis by (simp add: datetime_now_utc_def)
qed

theorem coordinate_resolution_witness:
  "resolve_coordinates (sample_world None)
      \<lparr>arg_city = None, arg_lat = Some ''40.5'', arg_lon = Some ''-86.25''\<rparr>
     = Inr (Inr [(Finite 40.5, Finite (- 86.25))])
   \<and> get_weather (sample_world None) sample_globals
        \<lparr>arg_city = None, arg_lat = Some ''abc'', arg_lon = Some ''10''\<rparr>
     = (Inr (ErrorJson ''Invalid latitude or longitude'', 400), [])"
  using
    coordinate_resolution[of "\<lparr>arg_city = None, arg_lat = Some ''40.5'', arg_lon = Some ''-86.25''\<rparr>"
      "sample_world None" sample_globals]
    coordinate_resolution[of "\<lparr>arg_city = None, arg_lat = Some ''abc'', arg_lon = Some ''10''\<rparr>"
      "sample_world None" sample_globals]
  by (simp add: arg_truthy_def arg_text_def sample_world_def sample_floats)

section \<open>The range of coordinates\<close>

lemma registry_in_range:
  "coordinate_in_range (dict_get cities name (Finite 39.165325, Finite (- 86.52638569999999)))"
  by (simp add: dict_get_def cities_def coordinate_in_range_def float_between_def)

text \<open>
  Claim C9 as stated fails: the route has no range check, so the request
  \<^verbatim>\<open>lat=91&lon=0\<close> submits the latitude 91 to the forecast provider.
\<close>

theorem coordinate_out_of_range_counterexample:
  "submitted_coordinates (snd (get_weather (sample_world None) sample_globals
       \<lparr>arg_city = None, arg_lat = Some ''91'', arg_lon = Some ''0''\<rparr>)) = [(Finite 91, Finite 0)]
   \<and> \<not> coordinate_in_range (Finite 91, Finite 0)"
  by code_simp

lemma submitted_weather_for_window:
  "submitted_coordinates (snd (weather_for w g city cs))
     = (case forecast_window (datetime_now_utc w) of Inl e \<Rightarrow> [] | Inr win \<Rightarrow> cs)"
  by (auto simp: weather_for_def Let_def split: sum.splits prod.splits)

text \<open>
  Claim C9, amended.  Every coordinate of the registry lies in the range, hence every
  coordinate submitted on the city branch does.  On the coordinate branch the parsed
  pair is what is submitted, whatever its values: once the forecast window is
  computed, the provider is asked for exactly that pair.
\<close>

theorem coordinate_range_city_path:
  "(arg_truthy (arg_city req) \<longrightarrow>
      (\<forall>c \<in> set (submitted_coordinates (snd (get_weather w g req))). coordinate_in_range c))
   \<and> (\<forall>entry \<in> set cities. coordinate_in_range (snd entry))
   \<and> (\<not> arg_truthy (arg_city req) \<and> arg_truthy (arg_lat req) \<and> arg_truthy (arg_lon req)
        \<and> float_of_str w (arg_text (arg_lat req)) = Some lat
        \<and> float_of_str w (arg_text (arg_lon req)) = Some lon \<longrightarrow>
      submitted_coordinates (snd (get_weather w g req))
        = (case forecast_window (datetime_now_utc w) of Inl e \<Rightarrow> [] | Inr win \<Rightarrow> [(lat, lon)]))"
proof -
  have a: "\<forall>c \<in> set (submitted_coordinates (snd (get_weather w g req))). coordinate_in_range c"
    if "arg_truthy (arg_city req)"
    using that registry_in_range[of "arg_text (arg_city req)"]
      submitted_subset[of w g "arg_city req"
        "[dict_get cities (arg_text (arg_city req)) (Finite 39.165325, Finite (- 86.52638569999999))]"]
    by (auto simp: get_weather_def resolve_coordinates_cases)
  have b: "\<forall>entry \<in> set cities. coordinate_in_range (snd entry)"
    by (simp add: cities_def coordinate_in_range_def float_between_def)
  have c: "submitted_coordinates (snd (get_weather w g req))
        = (case forecast_window (datetime_now_utc w) of Inl e \<Rightarrow> [] | Inr win \<Rightarrow> [(lat, lon)])"
    if "\<not> arg_truthy (arg_city req)" "arg_truthy (arg_lat req)" "arg_truthy (arg_lon req)"
       "float_of_str w (arg_text (arg_lat req)) = Some lat"
       "float_of_str w (arg_text (arg_lon req)) = Some lon"
    using that submitted_weather_for_window[of w g "arg_city req" "[(lat, lon)]"]
    by (simp add: get_weather_def resolve_coordinates_cases)
  show ?thesis using a b c by blast
qed

theorem coordinate_range_city_path_witness:
  "submitted_coordinates (snd (get_weather (sample_world None) sample_globals
       \<lparr>arg_city = Some ''Chicago'', arg_lat = Some ''91'', arg_lon = Some ''0''\<rparr>))
     = [(Finite 41.8781, Finite (- 87.6298))]
   \<and> coordinate_in_range (Finite 41.8781, Finite (- 87.6298))
   \<and> submitted_coordinates (snd (get_weather (sample_world None) sample_globals
       \<lparr>arg_city = None, arg_lat = Some ''91'', arg_lon = Some ''0''\<rparr>))
     = [(Finite 91, Finite 0)]"
proof -
  have e: "submitted_coordinates (snd (get_weather (sample_world None) sample_globals
       \<lparr>arg_city = Some ''Chicago'', arg_lat = Some ''91'', arg_lon = Some ''0''\<rparr>))
     = [(Finite 41.8781, Finite (- 87.6298))]"
    by code_simp
  have f: "float_of_str (sample_world None) ''91'' = Some (Finite 91)"
          "float_of_str (sample_world None) ''0'' = Some (Finite 0)"
    by (simp_all add: sample_world_def sample_floats)
  show ?thesis
    using coordinate_range_city_path[of
        "\<lparr>arg_city = Some ''Chicago'', arg_lat = Some ''91'', arg_lon = Some ''0''\<rparr>"
        "sample_world None" sample_globals]
      coordinate_range_city_path[of
        "\<lparr>arg_city = None, arg_lat = Some ''91'', arg_lon = Some ''0''\<rparr>"
        "sample_world None" sample_globals "Finite 91" "Finite 0"]
      e f sample_window[of None]
    by (simp add: arg_truthy_def arg_text_def)
qed

section \<open>The time zone of the response (lines 126--135, 152--156)\<close>

text \<open>
  Claim C2.  When the lookup gives a name that \<^verbatim>\<open>pytz\<close> does not know, the readings
  are converted with UTC, and the request still succeeds; but the \<^verbatim>\<open>timezone\<close> field of
  the response is the unknown name, not \<^verbatim>\<open>"UTC"\<close>: line 134 replaces \<^verbatim>\<open>local_tz\<close> and leaves
  \<^verbatim>\<open>timezone_str\<close> as it was, unlike line 128.
\<close>

theorem unknown_zone_name_is_returned:
  assumes "forecast_window (datetime_now_utc w) = Inr (startdate, enddate, interval)"
      and "query_time_series w
             \<lparr>q_coordinates = coordinates, q_startdate = startdate, q_enddate = enddate,
              q_interval = interval, q_parameters = parameters, q_username = username g,
              q_password = password g, q_model = ''mix''\<rparr> = Inr weather_data"
      and "timezone_coordinate city coordinates = Inr coord"
      and "timezone_at w (snd coord) (fst coord) = Inr (Some name)"
      and "name \<noteq> []"
      and "pytz_timezone w name = Inl UnknownTimeZoneError"
  shows "fst (weather_for w g city coordinates)
           = Inr (WeatherJson (localize_all pytz_UTC weather_data) name, 200)"
  using assms
  by (simp add: weather_for_def timezone_or_UTC_def arg_truthy_def arg_text_def local_timezone_def)

theorem unknown_zone_name_is_returned_witness:
  "fst (weather_for (sample_world (Some ''Mars/Phobos'')) sample_globals None [(Finite 40.5, Finite (- 86.25))])
     = Inr (WeatherJson (localize_all pytz_UTC sample_rows) ''Mars/Phobos'', 200)
   \<and> ''Mars/Phobos'' \<noteq> ''UTC''"
proof -
  have tzc: "timezone_coordinate None [(Finite 40.5, Finite (- 86.25))] = Inr (Finite 40.5, Finite (- 86.25))"
    by (simp add: timezone_coordinate_def arg_truthy_def)
  show ?thesis
    using unknown_zone_name_is_returned[OF sample_window, of "Some ''Mars/Phobos''" _ sample_globals
        sample_rows None "(Finite 40.5, Finite (- 86.25))" "''Mars/Phobos''"] tzc
    by (simp add: sample_world_def sample_zones_def)
qed

section \<open>Converting the readings (lines 138--150)\<close>

lemma localize_all_map: "localize_all tz rows = map (localize_entry tz) rows"
  by (induction rows) simp_all

lemma map_of_localize_entry:
  "map_of (localize_entry tz entry)
     = (map_of entry)(''validdate'' \<mapsto>
         (case map_of entry ''validdate'' of
            Some v \<Rightarrow>
              if truthy v
              then (case convert_validdate tz v of Inr s \<Rightarrow> VStr s | Inl e \<Rightarrow> VNone)
              else VNone
          | None \<Rightarrow> VNone))"
  by (simp add: localize_entry_def update_conv' split: option.splits sum.splits)

lemma localized_value:
  "(case mv of
      Some v \<Rightarrow>
        if truthy v
        then (case convert_validdate tz v of Inr s \<Rightarrow> VStr s | Inl e \<Rightarrow> VNone)
        else VNone
    | None \<Rightarrow> VNone)
   = (case mv of
        Some (VStr s) \<Rightarrow>
          if s = [] then VNone
          else (case fromisoformat s of
                  Inl e \<Rightarrow> VNone
                | Inr parsed \<Rightarrow>
                    (case astimezone (parsed\<lparr>tzinfo := Some 0\<rparr>) tz of
                       Inl e \<Rightarrow> VNone
                     | Inr local_time \<Rightarrow>
                         (case isoformat local_time of Inl e \<Rightarrow> VNone | Inr out \<Rightarrow> VStr out)))
      | _ \<Rightarrow> VNone)"
  by (auto simp: convert_validdate_def Let_def split: option.splits pyval.splits sum.splits)

text \<open>
  Claim C6.  Take a request that reaches the loop: its coordinates are resolved, the
  provider returns a batch, and the time zone is resolved.  Then the response is 200,
  whatever the readings contain, with one reading for each reading of the batch, in the
  same order.  Each reading keeps all its fields but \<^verbatim>\<open>validdate\<close>.  When the
  \<^verbatim>\<open>validdate\<close> of the fetched reading is a text that is not empty, it is parsed, read as
  UTC, converted to the resolved zone and written as ISO 8601 text with the offset; when
  one of these steps raises, the new \<^verbatim>\<open>validdate\<close> is \<^verbatim>\<open>None\<close>.  When it is absent, empty,
  \<^verbatim>\<open>None\<close> or no text at all, the new \<^verbatim>\<open>validdate\<close> is \<^verbatim>\<open>None\<close>.
\<close>

theorem localization_is_per_row:
  assumes coords: "resolve_coordinates w req = Inr (Inr coordinates)"
      and window: "forecast_window (datetime_now_utc w) = Inr (startdate, enddate, interval)"
      and fetched: "query_time_series w
             \<lparr>q_coordinates = coordinates, q_startdate = startdate, q_enddate = enddate,
              q_interval = interval, q_parameters = parameters, q_username = username g,
              q_password = password g, q_model = ''mix''\<rparr> = Inr weather_data"
      and coord: "timezone_coordinate (arg_city req) coordinates = Inr coord"
      and found: "timezone_at w (snd coord) (fst coord) = Inr found"
      and zone: "local_timezone w (timezone_or_UTC found) = Inr local_tz"
  shows "\<exists>rows. fst (get_weather w g req) = Inr (WeatherJson rows (timezone_or_UTC found), 200)
           \<and> length rows = length weather_data
           \<and> (\<forall>i < length weather_data.
                map_of (rows ! i)
                  = (map_of (weather_data ! i))(''validdate'' \<mapsto>
                      (case map_of (weather_data ! i) ''validdate'' of
                         Some (VStr s) \<Rightarrow>
                           if s = [] then VNone
                           else (case fromisoformat s of
                                   Inl e \<Rightarrow> VNone
                                 | Inr parsed \<Rightarrow>
                                     (case astimezone (parsed\<lparr>tzinfo := Some 0\<rparr>) local_tz of
                                        Inl e \<Rightarrow> VNone
                                      | Inr local_time \<Rightarrow>
                                          (case isoformat local_time of
                                             Inl e \<Rightarrow> VNone
                                           | Inr out \<Rightarrow> VStr out)))
                       | _ \<Rightarrow> VNone)))"
proof -
  have r: "fst (get_weather w g req)
             = Inr (WeatherJson (localize_all local_tz weather_data) (timezone_or_UTC found), 200)"
    using assms by (simp add: get_weather_def weather_for_def)
  have l: "length (localize_all local_tz weather_data) = length weather_data"
    by (simp add: localize_all_map)
  have e: "map_of (localize_all local_tz weather_data ! i)
                  = (map_of (weather_data ! i))(''validdate'' \<mapsto>
                      (case map_of (weather_data ! i) ''validdate'' of
                         Some (VStr s) \<Rightarrow>
                           if s = [] then VNone
                           else (case fromisoformat s of
                                   Inl e \<Rightarrow> VNone
                                 | Inr parsed \<Rightarrow>
                                     (case astimezone (parsed\<lparr>tzinfo := Some 0\<rparr>) local_tz of
                                        Inl e \<Rightarrow> VNone
                                      | Inr local_time \<Rightarrow>
                                          (case isoformat local_time of
                                             Inl e \<Rightarrow> VNone
                                           | Inr out \<Rightarrow> VStr out)))
                       | _ \<Rightarrow> VNone))"
    if "i < length weather_data" for i
    using that unfolding localized_value[symmetric]
    by (simp add: localize_all_map map_of_localize_entry)
  show ?thesis using r l e by blast
qed

theorem localization_is_per_row_witness:
  "\<exists>rows. fst (get_weather (sample_world (Some ''Asia/Kolkata'')) sample_globals
                 \<lparr>arg_city = None, arg_lat = Some ''40.5'', arg_lon = Some ''-86.25''\<rparr>)
             = Inr (WeatherJson rows ''Asia/Kolkata'', 200)
      \<and> length rows = 3
      \<and> map_of (rows ! 0) ''validdate'' = Some (VStr ''2024-03-01T04:30:00+05:30'')
      \<and> map_of (rows ! 1) ''validdate'' = Some VNone
      \<and> map_of (rows ! 2) ''validdate'' = Some VNone
      \<and> map_of (rows ! 1) ''t_2m:C'' = Some (VFloat (Finite 4))"
proof -
  define w where "w = sample_world (Some ''Asia/Kolkata'')"
  define req where "req = \<lparr>arg_city = None, arg_lat = Some ''40.5'', arg_lon = Some ''-86.25''\<rparr>"
  have coords: "resolve_coordinates w req = Inr (Inr [(Finite 40.5, Finite (- 86.25))])"
    unfolding w_def req_def
    by (simp add: resolve_coordinates_def arg_truthy_def arg_text_def sample_world_def sample_floats)
  have fetched: "query_time_series w q = Inr sample_rows" for q
    unfolding w_def by (simp add: sample_world_def)
  have coord: "timezone_coordinate (arg_city req) [(Finite 40.5, Finite (- 86.25))]
                 = Inr (Finite 40.5, Finite (- 86.25))"
    unfolding req_def by (simp add: timezone_coordinate_def arg_truthy_def)
  have found: "timezone_at w lng lat = Inr (Some ''Asia/Kolkata'')" for lng lat
    unfolding w_def by (simp add: sample_world_def)
  have name: "timezone_or_UTC (Some ''Asia/Kolkata'') = ''Asia/Kolkata''"
    by (simp add: timezone_or_UTC_def arg_truthy_def arg_text_def)
  have zone: "local_timezone w (timezone_or_UTC (Some ''Asia/Kolkata'')) = Inr (\<lambda>t. 19800)"
    unfolding name w_def by (simp add: local_timezone_def sample_world_def sample_zones_def)
  have p: "fromisoformat ''2024-02-29T23:00:00+00:00''
             = Inr \<lparr>year = 2024, month = 2, day = 29, hour = 23, minute = 0, second = 0,
                     microsecond = 0, tzinfo = Some 0\<rparr>"
          "fromisoformat ''not a date'' = Inl ValueError"
    by code_simp+
  have a: "astimezone \<lparr>year = 2024, month = 2, day = 29, hour = 23, minute = 0, second = 0,
                     microsecond = 0, tzinfo = Some 0\<rparr> (\<lambda>t. 19800)
             = Inr \<lparr>year = 2024, month = 3, day = 1, hour = 4, minute = 30, second = 0,
                     microsecond = 0, tzinfo = Some 19800000000\<rparr>"
    by code_simp
  have i: "isoformat \<lparr>year = 2024, month = 3, day = 1, hour = 4, minute = 30, second = 0,
                     microsecond = 0, tzinfo = Some 19800000000\<rparr> = Inr ''2024-03-01T04:30:00+05:30''"
    by code_simp
  have n: "length sample_rows = 3" by (simp add: sample_rows_def)
  obtain rows where rows: "fst (get_weather w sample_globals req)
                              = Inr (WeatherJson rows (timezone_or_UTC (Some ''Asia/Kolkata'')), 200)"
      "length rows = length sample_rows"
      "\<forall>i < length sample_rows.
                map_of (rows ! i)
                  = (map_of (sample_rows ! i))(''validdate'' \<mapsto>
                      (case map_of (sample_rows ! i) ''validdate'' of
                         Some (VStr s) \<Rightarrow>
                           if s = [] then VNone
                           else (case fromisoformat s of
                                   Inl e \<Rightarrow> VNone
                                 | Inr parsed \<Rightarrow>
                                     (case astimezone (parsed\<lparr>tzinfo := Some 0\<rparr>) (\<lambda>t. 19800) of
                                        Inl e \<Rightarrow> VNone
                                      | Inr local_time \<Rightarrow>
                                          (case isoformat local_time of
                                             Inl e \<Rightarrow> VNone
                                           | Inr out \<Rightarrow> VStr out)))
                       | _ \<Rightarrow> VNone))"
    using localization_is_per_row[OF coords sample_window[of "Some ''Asia/Kolkata''", folded w_def]
        fetched coord found zone, of sample_globals]
    by blast
  have r0: "0 < length sample_rows" and r1: "1 < length sample_rows" and r2: "2 < length sample_rows"
    using n by simp_all
  have "map_of (rows ! 0) ''validdate'' = Some (VStr ''2024-03-01T04:30:00+05:30'')"
    using rows(3)[rule_format, OF r0] p a i by (simp add: sample_rows_def)
  moreover have "map_of (rows ! 1) ''validdate'' = Some VNone"
      "map_of (rows ! 1) ''t_2m:C'' = Some (VFloat (Finite 4))"
    using rows(3)[rule_format, OF r1] p by (simp_all add: sample_rows_def)
  moreover have "map_of (rows ! 2) ''validdate'' = Some VNone"
    using rows(3)[rule_format, OF r2] by (simp add: sample_rows_def)
  ultimately show ?thesis
    using rows(1,2) n unfolding name w_def req_def by (intro exI[of _ rows]) simp
qed

section \<open>The calendar: ordinals and dates are inverse to each other\<close>

lemma DI_values: "DI400Y = 146097" "DI100Y = 36524" "DI4Y = 1461"
  by (simp_all add: DI400Y_def DI100Y_def DI4Y_def days_before_year_def)


lemma div_split_const:
  fixes q r k :: int
  assumes "0 \<le> r" "r < k"
  shows "(k * q + r) div k = q" "(k * q + r) mod k = r"
  using assms by (simp_all add: div_pos_pos_trivial)

lemma dby_decomp:
  assumes "0 \<le> b" "b \<le> 3" "0 \<le> c" "c \<le> 24" "0 \<le> e" "e \<le> 3"
  shows "days_before_year (400 * a + 100 * b + 4 * c + e + 1) = 146097 * a + 36524 * b + 1461 * c + 365 * e"
proof -
  let ?y = "400 * a + 100 * b + 4 * c + e"
  have "?y = 4 * (100 * a + 25 * b + c) + e" by simp
  then have d4: "?y div 4 = 100 * a + 25 * b + c"
    using div_split_const(1)[of e 4 "100 * a + 25 * b + c"] assms by simp
  have "?y = 100 * (4 * a + b) + (4 * c + e)" by simp
  then have d100: "?y div 100 = 4 * a + b"
    using div_split_const(1)[of "4 * c + e" 100 "4 * a + b"] assms by simp
  have "?y = 400 * a + (100 * b + 4 * c + e)" by simp
  then have d400: "?y div 400 = a"
    using div_split_const(1)[of "100 * b + 4 * c + e" 400 a] assms by simp
  show ?thesis unfolding days_before_year_def Let_def using d4 d100 d400 by simp
qed

lemma leap_decomp:
  assumes "0 \<le> b" "b \<le> 3" "0 \<le> c" "c \<le> 24" "0 \<le> e" "e \<le> 3"
  shows "is_leap (400 * a + 100 * b + 4 * c + e + 1) = (e = 3 \<and> (c \<noteq> 24 \<or> b = 3))"
proof -
  let ?y = "400 * a + 100 * b + 4 * c + e + 1"
  have m4: "?y mod 4 = (e + 1) mod 4"
  proof -
    have "?y = (e + 1) + 4 * (100 * a + 25 * b + c)" by simp
    then show ?thesis by (metis mod_mult_self2)
  qed
  have m100: "?y mod 100 = (4 * c + e + 1) mod 100"
  proof -
    have "?y = (4 * c + e + 1) + 100 * (4 * a + b)" by simp
    then show ?thesis by (metis mod_mult_self2)
  qed
  have m400: "?y mod 400 = (100 * b + 4 * c + e + 1) mod 400"
  proof -
    have "?y = (100 * b + 4 * c + e + 1) + 400 * a" by simp
    then show ?thesis by (metis mod_mult_self2)
  qed
  have e4: "((e + 1) mod 4 = 0) = (e = 3)"
  proof (cases "e = 3")
    case True then show ?thesis by simp
  next
    case False
    then have "0 < e + 1" "e + 1 < 4" using assms by linarith+
    then have "(e + 1) mod 4 = e + 1" by simp
    then show ?thesis using False assms by simp
  qed
  have c100: "((4 * c + e + 1) mod 100 = 0) = (c = 24)" if "e = 3"
  proof (cases "c = 24")
    case True then show ?thesis using that by simp
  next
    case False
    then have "0 < 4 * c + e + 1" "4 * c + e + 1 < 100" using assms that by linarith+
    then have "(4 * c + e + 1) mod 100 = 4 * c + e + 1" by simp
    then show ?thesis using False assms by simp
  qed
  have b400: "((100 * b + 4 * c + e + 1) mod 400 = 0) = (b = 3)" if "e = 3" "c = 24"
  proof (cases "b = 3")
    case True then show ?thesis using that by simp
  next
    case False
    then have "0 < 100 * b + 4 * c + e + 1" "100 * b + 4 * c + e + 1 < 400" using assms that by linarith+
    then have "(100 * b + 4 * c + e + 1) mod 400 = 100 * b + 4 * c + e + 1" by simp
    then show ?thesis using False assms that by simp
  qed
  show ?thesis unfolding is_leap_def m4 m100 m400 using e4 c100 b400 by auto
qed


lemma div_bounds:
  fixes n k :: int
  assumes "0 < k"
  shows "k * (n div k) \<le> n" "n < k * (n div k) + k"
proof -
  have "n = k * (n div k) + n mod k" by simp
  moreover have "0 \<le> n mod k" "n mod k < k" using assms by simp_all
  ultimately show "k * (n div k) \<le> n" "n < k * (n div k) + k" by linarith+
qed

lemma month_part_forward:
  fixes n :: int and L :: bool
  assumes "0 \<le> n" "n \<le> 364"
  defines "mo \<equiv> (n + 50) div 32"
  defines "pre \<equiv> DAYS_BEFORE_MONTH ! nat mo + (if mo > 2 \<and> L then 1 else 0)"
  defines "res \<equiv> (if pre > n
               then (mo - 1, n - (pre - (DAYS_IN_MONTH ! nat (mo - 1) + (if mo - 1 = 2 \<and> L then 1 else 0))) + 1)
               else (mo, n - pre + 1))"
  shows "1 \<le> fst res \<and> fst res \<le> 12 \<and> 1 \<le> snd res
       \<and> snd res \<le> (if fst res = 2 \<and> L then 29 else DAYS_IN_MONTH ! nat (fst res))
       \<and> DAYS_BEFORE_MONTH ! nat (fst res) + (if fst res > 2 \<and> L then 1 else 0) + snd res = n + 1"
proof -
  have "32 * mo \<le> n + 50" "n + 50 < 32 * mo + 32"
    unfolding mo_def using div_bounds[of 32 "n + 50"] by simp_all
  then have b: "32 * mo \<le> n + 50" "n + 18 < 32 * mo" by simp_all
  with assms(1,2) have "1 \<le> mo" "mo \<le> 12" by simp_all
  then have "mo = 1 \<or> mo = 2 \<or> mo = 3 \<or> mo = 4 \<or> mo = 5 \<or> mo = 6
    \<or> mo = 7 \<or> mo = 8 \<or> mo = 9 \<or> mo = 10 \<or> mo = 11 \<or> mo = 12"
    by arith
  then consider "mo = 1" | "mo = 2" | "mo = 3" | "mo = 4" | "mo = 5" | "mo = 6"
    | "mo = 7" | "mo = 8" | "mo = 9" | "mo = 10" | "mo = 11" | "mo = 12"
    by blast
  then show ?thesis
  proof cases
    case 1 then show ?thesis using b assms(1,2) unfolding res_def pre_def
      by (simp add: DAYS_BEFORE_MONTH_def DAYS_IN_MONTH_def)
  next
    case 2 then show ?thesis using b assms(1,2) unfolding res_def pre_def
      by (simp add: DAYS_BEFORE_MONTH_def DAYS_IN_MONTH_def)
  next
    case 3 then show ?thesis using b assms(1,2) unfolding res_def pre_def
      by (simp add: DAYS_BEFORE_MONTH_def DAYS_IN_MONTH_def)
  next
    case 4 then show ?thesis using b assms(1,2) unfolding res_def pre_def
      by (simp add: DAYS_BEFORE_MONTH_def DAYS_IN_MONTH_def)
  next
    case 5 then show ?thesis using b assms(1,2) unfolding res_def pre_def
      by (simp add: DAYS_BEFORE_MONTH_def DAYS_IN_MONTH_def)
  next
    case 6 then show ?thesis using b assms(1,2) unfolding res_def pre_def
      by (simp add: DAYS_BEFORE_MONTH_def DAYS_IN_MONTH_def)
  next
    case 7 then show ?thesis using b assms(1,2) unfolding res_def pre_def
      by (simp add: DAYS_BEFORE_MONTH_def DAYS_IN_MONTH_def)
  next
    case 8 then show ?thesis using b assms(1,2) unfolding res_def pre_def
      by (simp add: DAYS_BEFORE_MONTH_def DAYS_IN_MONTH_def)
  next
    case 9 then show ?thesis using b assms(1,2) unfolding res_def pre_def
      by (simp add: DAYS_BEFORE_MONTH_def DAYS_IN_MONTH_def)
  next
    case 10 then show ?thesis using b assms(1,2) unfolding res_def pre_def
      by (simp add: DAYS_BEFORE_MONTH_def DAYS_IN_MONTH_def)
  next
    case 11 then show ?thesis using b assms(1,2) unfolding res_def pre_def
      by (simp add: DAYS_BEFORE_MONTH_def DAYS_IN_MONTH_def)
  next
    case 12 then show ?thesis using b assms(1,2) unfolding res_def pre_def
      by (simp add: DAYS_BEFORE_MONTH_def DAYS_IN_MONTH_def)
  qed
qed


lemma ord2ymd_forward:
  assumes n1: "1 \<le> n" and res: "ord2ymd n = (y, m, d)"
  shows "ymd2ord y m d = n \<and> 1 \<le> y \<and> 1 \<le> m \<and> m \<le> 12 \<and> 1 \<le> d \<and> d \<le> days_in_month y m"
proof -
  define a where "a = (n - 1) div 146097"
  define r where "r = (n - 1) mod 146097"
  define b where "b = r div 36524"
  define r1 where "r1 = r mod 36524"
  define c where "c = r1 div 1461"
  define r2 where "r2 = r1 mod 1461"
  define e where "e = r2 div 365"
  define r3 where "r3 = r2 mod 365"
  have n_eq: "n - 1 = 146097 * a + r" unfolding a_def r_def by simp
  have r_eq: "r = 36524 * b + r1" unfolding b_def r1_def by simp
  have r1_eq: "r1 = 1461 * c + r2" unfolding c_def r2_def by simp
  have r2_eq: "r2 = 365 * e + r3" unfolding e_def r3_def by simp
  have rb: "0 \<le> r" "r < 146097" unfolding r_def by simp_all
  have r1b: "0 \<le> r1" "r1 < 36524" unfolding r1_def by simp_all
  have r2b: "0 \<le> r2" "r2 < 1461" unfolding r2_def by simp_all
  have r3b: "0 \<le> r3" "r3 < 365" unfolding r3_def by simp_all
  have a0: "0 \<le> a" unfolding a_def using n1 by (simp add: pos_imp_zdiv_nonneg_iff)
  have b0: "0 \<le> b" "b \<le> 4" using rb r1b r_eq by linarith+
  have c0: "0 \<le> c" "c \<le> 24" using r1b r2b r1_eq by linarith+
  have e0: "0 \<le> e" "e \<le> 4" using r2b r3b r2_eq by linarith+
  have unf: "ord2ymd n =
     (if e = 4 \<or> b = 4 then (400 * a + 1 + 100 * b + 4 * c + e - 1, 12, 31)
      else (let leapyear = (e = 3 \<and> (c \<noteq> 24 \<or> b = 3));
                month = (r3 + 50) div 32;
                preceding = DAYS_BEFORE_MONTH ! nat month + (if month > 2 \<and> leapyear then 1 else 0)
            in if preceding > r3
               then (400 * a + 1 + 100 * b + 4 * c + e, month - 1, r3 - (preceding - (DAYS_IN_MONTH ! nat (month - 1) + (if month - 1 = 2 \<and> leapyear then 1 else 0))) + 1)
               else (400 * a + 1 + 100 * b + 4 * c + e, month, r3 - preceding + 1)))"
    unfolding ord2ymd_def DI_values Let_def
      a_def[symmetric] r_def[symmetric] b_def[symmetric] r1_def[symmetric]
      c_def[symmetric] r2_def[symmetric] e_def[symmetric] r3_def[symmetric]
    by (simp add: mult.commute)
  show ?thesis
  proof (cases "e = 4 \<or> b = 4")
    case True
    then have ymd: "y = 400 * a + 100 * b + 4 * c + e" "m = 12" "d = 31"
      using res unf by simp_all
    from True show ?thesis
    proof
      assume b4: "b = 4"
      then have "r1 = 0" using r_eq rb r1b by linarith
      then have z: "c = 0" "e = 0" "r3 = 0" "r2 = 0" using r1_eq r2_eq c0 e0 r2b r3b by linarith+
      have y': "y = 400 * a + 100 * 3 + 4 * 24 + 3 + 1" using ymd b4 z by simp
      have dby: "days_before_year y = 146097 * a + 36524 * 3 + 1461 * 24 + 365 * 3"
        unfolding y' by (rule dby_decomp) simp_all
      have lp: "is_leap y" unfolding y' by (subst leap_decomp) simp_all
      have "n = 146097 * a + 146097" using n_eq r_eq b4 \<open>r1 = 0\<close> by linarith
      then show ?thesis using dby lp ymd(2,3) a0 y'
        by (simp add: ymd2ord_def days_before_month_def days_in_month_def DAYS_BEFORE_MONTH_def DAYS_IN_MONTH_def)
    next
      assume e4: "e = 4"
      then have r3z: "r3 = 0" using r2_eq r2b r3b by linarith
      have c23: "c \<le> 23" using r1_eq r2_eq e4 r1b r3b by linarith
      show ?thesis
      proof (cases "b = 4")
        case True
        then have "r1 = 0" using r_eq rb r1b by linarith
        then have "e = 0" using r1_eq r2_eq c0 e0 r2b r3b by linarith
        then show ?thesis using e4 by simp
      next
        case False
        then have b3: "b \<le> 3" using b0 by simp
        have y': "y = 400 * a + 100 * b + 4 * c + 3 + 1" using ymd e4 by simp
        have dby: "days_before_year y = 146097 * a + 36524 * b + 1461 * c + 365 * 3"
          unfolding y' using b0 b3 c0 by (intro dby_decomp) simp_all
        have lp: "is_leap y" unfolding y' using b0 b3 c0 c23 by (subst leap_decomp) simp_all
        have "n = 146097 * a + 36524 * b + 1461 * c + 1461" using n_eq r_eq r1_eq r2_eq e4 r3z by linarith
        then show ?thesis using dby lp ymd(2,3) a0 b0 c0 y'
          by (simp add: ymd2ord_def days_before_month_def days_in_month_def DAYS_BEFORE_MONTH_def DAYS_IN_MONTH_def)
      qed
    qed
  next
    case False
    then have b3: "b \<le> 3" and e3: "e \<le> 3" using b0 e0 by simp_all
    define L where "L = (e = 3 \<and> (c \<noteq> 24 \<or> b = 3))"
    define mo where "mo = (r3 + 50) div 32"
    define pre where "pre = DAYS_BEFORE_MONTH ! nat mo + (if mo > 2 \<and> L then 1 else 0)"
    define md where "md = (if pre > r3
               then (mo - 1, r3 - (pre - (DAYS_IN_MONTH ! nat (mo - 1) + (if mo - 1 = 2 \<and> L then 1 else 0))) + 1)
               else (mo, r3 - pre + 1))"
    have mp: "1 \<le> fst md \<and> fst md \<le> 12 \<and> 1 \<le> snd md
       \<and> snd md \<le> (if fst md = 2 \<and> L then 29 else DAYS_IN_MONTH ! nat (fst md))
       \<and> DAYS_BEFORE_MONTH ! nat (fst md) + (if fst md > 2 \<and> L then 1 else 0) + snd md = r3 + 1"
      unfolding md_def pre_def mo_def using r3b by (intro month_part_forward) simp_all
    have "ord2ymd n = (400 * a + 100 * b + 4 * c + e + 1, fst md, snd md)"
      using False unf unfolding md_def pre_def mo_def L_def Let_def by (simp add: algebra_simps)
    then have ymd: "y = 400 * a + 100 * b + 4 * c + e + 1" "m = fst md" "d = snd md"
      using res by auto
    have dby: "days_before_year y = 146097 * a + 36524 * b + 1461 * c + 365 * e"
      unfolding ymd(1) using b0 b3 c0 e0 e3 by (intro dby_decomp) simp_all
    have lp: "is_leap y = L" unfolding ymd(1) L_def using b0 b3 c0 e0 e3 by (intro leap_decomp) simp_all
    have "n = 146097 * a + 36524 * b + 1461 * c + 365 * e + r3 + 1"
      using n_eq r_eq r1_eq r2_eq by linarith
    then show ?thesis using dby lp mp a0 b0 c0 e0 unfolding ymd(2,3)[symmetric]
      by (simp add: ymd2ord_def days_before_month_def days_in_month_def ymd(1))
  qed
qed


lemma month_cases:
  fixes m :: int
  assumes "1 \<le> m" "m \<le> 12"
  shows "m = 1 \<or> m = 2 \<or> m = 3 \<or> m = 4 \<or> m = 5 \<or> m = 6
    \<or> m = 7 \<or> m = 8 \<or> m = 9 \<or> m = 10 \<or> m = 11 \<or> m = 12"
  using assms by arith

lemma dbm_next:
  assumes "1 \<le> m" "m \<le> 11"
  shows "days_before_month y (m + 1) = days_before_month y m + days_in_month y m"
  using month_cases[of m] assms
  by (auto simp: days_before_month_def days_in_month_def DAYS_BEFORE_MONTH_def DAYS_IN_MONTH_def)

lemma dim_bounds:
  assumes "1 \<le> m" "m \<le> 12"
  shows "28 \<le> days_in_month y m" "days_in_month y m \<le> 31"
  using month_cases[of m] assms
  by (auto simp: days_in_month_def DAYS_IN_MONTH_def)

lemma dbm_first: "days_before_month y 1 = 0"
  by (simp add: days_before_month_def DAYS_BEFORE_MONTH_def)

lemma dbm_last: "days_before_month y 12 + days_in_month y 12 = (if is_leap y then 366 else 365)"
  by (simp add: days_before_month_def days_in_month_def DAYS_BEFORE_MONTH_def DAYS_IN_MONTH_def)

lemma dbm_mono:
  assumes "1 \<le> m" "m \<le> m'" "m' \<le> 12"
  shows "days_before_month y m \<le> days_before_month y m'"
  using assms(2,3)
proof (induction m' rule: int_ge_induct)
  case base
  then show ?case by simp
next
  case (step i)
  then have "days_before_month y (i + 1) = days_before_month y i + days_in_month y i"
    using assms(1) by (intro dbm_next) simp_all
  moreover have "28 \<le> days_in_month y i" using step assms(1) by (intro dim_bounds) simp_all
  ultimately show ?case using step by simp
qed

lemma dbm_nonneg:
  assumes "1 \<le> m" "m \<le> 12"
  shows "0 \<le> days_before_month y m"
  using dbm_mono[of 1 m y] assms dbm_first[of y] by simp

lemma day_of_year_le:
  assumes "1 \<le> m" "m \<le> 12" "d \<le> days_in_month y m"
  shows "days_before_month y m + d \<le> (if is_leap y then 366 else 365)"
proof -
  have "days_before_month y m + days_in_month y m \<le> days_before_month y 12 + days_in_month y 12"
  proof (cases "m = 12")
    case True then show ?thesis by simp
  next
    case False
    then have "m \<le> 11" using assms by simp
    then have "days_before_month y m + days_in_month y m = days_before_month y (m + 1)"
      using assms dbm_next by simp
    also have "\<dots> \<le> days_before_month y 12" using assms \<open>m \<le> 11\<close> by (intro dbm_mono) simp_all
    finally show ?thesis using dim_bounds(1)[of 12 y] by simp
  qed
  then show ?thesis using assms(3) dbm_last[of y] by linarith
qed

lemma div_succ:
  fixes x k :: int
  assumes "0 < k"
  shows "(x + 1) div k = x div k + (if (x + 1) mod k = 0 then 1 else 0)"
proof -
  have x: "x = k * (x div k) + x mod k" by simp
  have b: "0 \<le> x mod k" "x mod k < k" using assms by simp_all
  show ?thesis
  proof (cases "x mod k + 1 = k")
    case True
    have "x + 1 = k * (x div k) + k" using x True by linarith
    also have "\<dots> = k * (x div k + 1) + 0" by (simp add: algebra_simps)
    finally have "x + 1 = k * (x div k + 1) + 0" .
    then have "(x + 1) div k = x div k + 1" "(x + 1) mod k = 0"
      using div_split_const[of 0 k "x div k + 1"] assms by simp_all
    then show ?thesis by simp
  next
    case False
    then have lt: "x mod k + 1 < k" using b by simp
    have "x + 1 = k * (x div k) + (x mod k + 1)" using x by linarith
    then have "(x + 1) div k = x div k" "(x + 1) mod k = x mod k + 1"
      using div_split_const[of "x mod k + 1" k "x div k"] lt b by simp_all
    then show ?thesis using b by simp
  qed
qed

lemma dby_step: "days_before_year (y + 1) = days_before_year y + (if is_leap y then 366 else 365)"
proof -
  have d4: "y mod 4 \<noteq> 0 \<Longrightarrow> y div 4 = (y - 1) div 4" "y mod 4 = 0 \<Longrightarrow> y div 4 = (y - 1) div 4 + 1"
    using div_succ[of 4 "y - 1"] by simp_all
  have d100: "y mod 100 \<noteq> 0 \<Longrightarrow> y div 100 = (y - 1) div 100" "y mod 100 = 0 \<Longrightarrow> y div 100 = (y - 1) div 100 + 1"
    using div_succ[of 100 "y - 1"] by simp_all
  have d400: "y mod 400 \<noteq> 0 \<Longrightarrow> y div 400 = (y - 1) div 400" "y mod 400 = 0 \<Longrightarrow> y div 400 = (y - 1) div 400 + 1"
    using div_succ[of 400 "y - 1"] by simp_all
  have m1: "y mod 4 = 0" if "y mod 100 = 0"
  proof -
    have "y mod 4 = (y mod 100) mod 4" by (simp add: mod_mod_cancel)
    then show ?thesis using that by simp
  qed
  have m2: "y mod 100 = 0" if "y mod 400 = 0"
  proof -
    have "y mod 100 = (y mod 400) mod 100" by (simp add: mod_mod_cancel)
    then show ?thesis using that by simp
  qed
  have E1: "days_before_year (y + 1) = y * 365 + y div 4 - y div 100 + y div 400"
    by (simp add: days_before_year_def)
  have E2: "days_before_year y = (y - 1) * 365 + (y - 1) div 4 - (y - 1) div 100 + (y - 1) div 400"
    by (simp add: days_before_year_def Let_def)
  show ?thesis
  proof (cases "y mod 4 = 0")
    case False
    then have n: "y mod 100 \<noteq> 0" "y mod 400 \<noteq> 0" using m1 m2 by auto
    have "\<not> is_leap y" using False by (simp add: is_leap_def)
    then show ?thesis unfolding E1 E2 using d4(1)[OF False] d100(1)[OF n(1)] d400(1)[OF n(2)]
      by (simp only: if_False) (simp add: algebra_simps)
  next
    case y4: True
    show ?thesis
    proof (cases "y mod 100 = 0")
      case False
      then have n: "y mod 400 \<noteq> 0" using m2 by auto
      have "is_leap y" using y4 False by (simp add: is_leap_def)
      then show ?thesis unfolding E1 E2 using d4(2)[OF y4] d100(1)[OF False] d400(1)[OF n]
        by (simp only: if_True) (simp add: algebra_simps)
    next
      case y100: True
      show ?thesis
      proof (cases "y mod 400 = 0")
        case False
        have "\<not> is_leap y" using y100 False by (simp add: is_leap_def)
        then show ?thesis unfolding E1 E2 using d4(2)[OF y4] d100(2)[OF y100] d400(1)[OF False]
          by (simp only: if_False) (simp add: algebra_simps)
      next
        case True
        have "is_leap y" using y4 True by (simp add: is_leap_def)
        then show ?thesis unfolding E1 E2 using d4(2)[OF y4] d100(2)[OF y100] d400(2)[OF True]
          by (simp only: if_True) (simp add: algebra_simps)
      qed
    qed
  qed
qed

lemma dby_mono:
  assumes "y \<le> y'"
  shows "days_before_year y + 365 * (y' - y) \<le> days_before_year y'"
  using assms
proof (induction y' rule: int_ge_induct)
  case base
  then show ?case by simp
next
  case (step i)
  have "days_before_year i + 365 \<le> days_before_year (i + 1)" using dby_step[of i] by simp
  then show ?case using step by (simp add: algebra_simps)
qed

lemma ymd2ord_inj:
  assumes v1: "1 \<le> m" "m \<le> 12" "1 \<le> d" "d \<le> days_in_month y m"
      and v2: "1 \<le> m'" "m' \<le> 12" "1 \<le> d'" "d' \<le> days_in_month y' m'"
      and eq: "ymd2ord y m d = ymd2ord y' m' d'"
  shows "y = y' \<and> m = m' \<and> d = d'"
proof -
  have year_lt: False
    if lt: "u < u'" and w1: "1 \<le> k" "k \<le> 12" "e \<le> days_in_month u k"
      and w2: "1 \<le> k'" "k' \<le> 12" "1 \<le> e'"
      and q: "ymd2ord u k e = ymd2ord u' k' e'" for u u' k k' e e'
  proof -
    have "ymd2ord u k e \<le> days_before_year u + (if is_leap u then 366 else 365)"
      unfolding ymd2ord_def using day_of_year_le[OF w1] by simp
    also have "\<dots> = days_before_year (u + 1)" using dby_step[of u] by simp
    also have "\<dots> \<le> days_before_year u'" using dby_mono[of "u + 1" u'] lt by simp
    also have "\<dots> < ymd2ord u' k' e'" unfolding ymd2ord_def using dbm_nonneg[OF w2(1,2), of u'] w2(3) by simp
    finally show False using q by simp
  qed
  have month_lt: False
    if lt: "k < k'" and w1: "1 \<le> k" "e \<le> days_in_month u k"
      and w2: "k' \<le> 12" "1 \<le> e'"
      and q: "days_before_month u k + e = days_before_month u k' + e'" for u k k' e e'
  proof -
    have "k \<le> 11" using lt w2 by simp
    have "days_before_month u k + e \<le> days_before_month u (k + 1)"
      using dbm_next[OF w1(1) \<open>k \<le> 11\<close>] w1(2) by simp
    also have "\<dots> \<le> days_before_month u k'" using lt w1 w2 by (intro dbm_mono) simp_all
    finally show False using q w2 by simp
  qed
  have y: "y = y'"
    using year_lt[of y y' m d m' d'] year_lt[of y' y m' d' m d] v1 v2 eq
    by (cases y y' rule: linorder_cases) simp_all
  then have q: "days_before_month y m + d = days_before_month y m' + d'"
    using eq by (simp add: ymd2ord_def)
  have m: "m = m'"
    using month_lt[of m m' d y d'] month_lt[of m' m d' y d] v1 v2 q y
    by (cases m m' rule: linorder_cases) simp_all
  then show ?thesis using y q by simp
qed

lemma ymd2ord_pos:
  assumes "1 \<le> y" "1 \<le> m" "m \<le> 12" "1 \<le> d"
  shows "1 \<le> ymd2ord y m d"
proof -
  have "days_before_year 1 + 365 * (y - 1) \<le> days_before_year y" using assms(1) by (intro dby_mono)
  moreover have "days_before_year 1 = 0" by (simp add: days_before_year_def)
  ultimately have "0 \<le> days_before_year y" using assms(1) by simp
  then show ?thesis unfolding ymd2ord_def using dbm_nonneg[OF assms(2,3), of y] assms(4) by simp
qed

lemma ord2ymd_backward:
  assumes "1 \<le> y" "1 \<le> m" "m \<le> 12" "1 \<le> d" "d \<le> days_in_month y m"
  shows "ord2ymd (ymd2ord y m d) = (y, m, d)"
proof -
  obtain y' m' d' where r: "ord2ymd (ymd2ord y m d) = (y', m', d')" by (metis prod_cases3)
  have "1 \<le> ymd2ord y m d" using assms by (intro ymd2ord_pos)
  from ord2ymd_forward[OF this r]
  have "ymd2ord y' m' d' = ymd2ord y m d" "1 \<le> m'" "m' \<le> 12" "1 \<le> d'" "d' \<le> days_in_month y' m'"
    by simp_all
  then have "y' = y \<and> m' = m \<and> d' = d" using assms by (intro ymd2ord_inj) simp_all
  then show ?thesis using r by simp
qed

lemma ord2ymd_year_le:
  assumes "1 \<le> n" "n \<le> MAXORDINAL" "ord2ymd n = (y, m, d)"
  shows "y \<le> 9999"
proof (rule ccontr)
  assume "\<not> y \<le> 9999"
  then have "10000 \<le> y" by simp
  then have "days_before_year 10000 + 365 * (y - 10000) \<le> days_before_year y" by (intro dby_mono)
  moreover have "days_before_year 10000 = 3652059" by (simp add: days_before_year_def)
  ultimately have "3652059 \<le> days_before_year y" using \<open>10000 \<le> y\<close> by simp
  moreover from ord2ymd_forward[OF assms(1,3)]
  have "ymd2ord y m d = n" "1 \<le> m" "m \<le> 12" "1 \<le> d" by simp_all
  ultimately show False using assms(2) dbm_nonneg[of m y]
    by (simp add: ymd2ord_def MAXORDINAL_def)
qed


lemma ymd2ord_le_MAXORDINAL:
  assumes "y \<le> 9999" "1 \<le> m" "m \<le> 12" "d \<le> days_in_month y m"
  shows "ymd2ord y m d \<le> MAXORDINAL"
proof -
  have "ymd2ord y m d \<le> days_before_year y + (if is_leap y then 366 else 365)"
    unfolding ymd2ord_def using day_of_year_le[OF assms(2,3,4)] by simp
  also have "\<dots> = days_before_year (y + 1)" using dby_step[of y] by simp
  also have "\<dots> \<le> days_before_year 10000" using dby_mono[of "y + 1" 10000] assms(1) by simp
  also have "\<dots> = MAXORDINAL" by (simp add: days_before_year_def MAXORDINAL_def)
  finally show ?thesis .
qed

lemma time_units: "SECOND = 1000000" "MINUTE = 60000000" "HOUR = 3600000000" "DAY = 86400000000"
  by (simp_all add: SECOND_def MINUTE_def HOUR_def DAY_def)

text \<open>The time of day of a datetime, in microseconds.\<close>

lemma time_split:
  fixes hh mi ss us :: int
  assumes "0 \<le> hh" "hh \<le> 23" "0 \<le> mi" "mi \<le> 59" "0 \<le> ss" "ss \<le> 59" "0 \<le> us" "us \<le> 999999"
  defines "r \<equiv> hh * 3600000000 + mi * 60000000 + ss * 1000000 + us"
  shows "0 \<le> r" "r < 86400000000"
    "r div 1000000 = hh * 3600 + mi * 60 + ss" "r mod 1000000 = us"
    "(hh * 3600 + mi * 60 + ss) div 3600 = hh"
    "((hh * 3600 + mi * 60 + ss) mod 3600) div 60 = mi"
    "((hh * 3600 + mi * 60 + ss) mod 3600) mod 60 = ss"
proof -
  show "0 \<le> r" "r < 86400000000" unfolding r_def using assms(1-8) by linarith+
  have r: "r = 1000000 * (hh * 3600 + mi * 60 + ss) + us" unfolding r_def by simp
  show "r div 1000000 = hh * 3600 + mi * 60 + ss" "r mod 1000000 = us"
    unfolding r using div_split_const[of us 1000000 "hh * 3600 + mi * 60 + ss"] assms(7,8) by simp_all
  have s: "hh * 3600 + mi * 60 + ss = 3600 * hh + (mi * 60 + ss)" by simp
  have b: "0 \<le> mi * 60 + ss" "mi * 60 + ss < 3600" using assms(3-6) by linarith+
  show "(hh * 3600 + mi * 60 + ss) div 3600 = hh"
    unfolding s using div_split_const(1)[OF b, of hh] by simp
  have m: "(hh * 3600 + mi * 60 + ss) mod 3600 = mi * 60 + ss"
    unfolding s using div_split_const(2)[OF b, of hh] by simp
  have t: "mi * 60 + ss = 60 * mi + ss" by simp
  show "((hh * 3600 + mi * 60 + ss) mod 3600) div 60 = mi"
    unfolding m t using div_split_const(1)[of ss 60 mi] assms(5,6) by simp
  show "((hh * 3600 + mi * 60 + ss) mod 3600) mod 60 = ss"
    unfolding m t using div_split_const(2)[of ss 60 mi] assms(5,6) by simp
qed

section \<open>Datetime arithmetic and the forecast window (lines 92--94)\<close>

lemma wall_micros_eq:
  "wall_micros t = toordinal t * DAY + hour t * HOUR + minute t * MINUTE + second t * SECOND + microsecond t"
  by (simp add: wall_micros_def time_units algebra_simps)

lemma valid_toordinal:
  assumes "valid_datetime t"
  shows "1 \<le> toordinal t" "toordinal t \<le> MAXORDINAL"
  using assms ymd2ord_pos[of "year t" "month t" "day t"]
    ymd2ord_le_MAXORDINAL[of "year t" "month t" "day t"]
  by (simp_all add: valid_datetime_def check_date_fields_def toordinal_def)

lemma secs_split:
  fixes secs :: int
  assumes "0 \<le> secs" "secs < 86400"
  shows "0 \<le> secs div 3600" "secs div 3600 \<le> 23"
        "0 \<le> (secs mod 3600) div 60" "(secs mod 3600) div 60 \<le> 59"
        "0 \<le> (secs mod 3600) mod 60" "(secs mod 3600) mod 60 \<le> 59"
        "(secs mod 3600) mod 60 + ((secs mod 3600) div 60) * 60 + (secs div 3600) * 3600 = secs"
proof -
  have a: "secs = 3600 * (secs div 3600) + secs mod 3600" by simp
  have b: "0 \<le> secs mod 3600" "secs mod 3600 < 3600" by simp_all
  have c: "secs mod 3600 = 60 * ((secs mod 3600) div 60) + (secs mod 3600) mod 60" by simp
  have d: "0 \<le> (secs mod 3600) mod 60" "(secs mod 3600) mod 60 < 60" by simp_all
  show "0 \<le> secs div 3600" "secs div 3600 \<le> 23" using a b assms by linarith+
  show "0 \<le> (secs mod 3600) div 60" "(secs mod 3600) div 60 \<le> 59" using c b d by linarith+
  show "0 \<le> (secs mod 3600) mod 60" "(secs mod 3600) mod 60 \<le> 59" using d by linarith+
  show "(secs mod 3600) mod 60 + ((secs mod 3600) div 60) * 60 + (secs div 3600) * 3600 = secs"
    using a c by linarith
qed

text \<open>What a successful addition returns.\<close>

lemma datetime_add_Inr:
  assumes ok: "datetime_add t delta = Inr t'"
  shows "wall_micros t' = wall_micros t + delta \<and> valid_datetime t' \<and> tzinfo t' = tzinfo t"
proof -
  define total where "total = toordinal t * DAY + hour t * HOUR + minute t * MINUTE + second t * SECOND
                    + microsecond t + delta"
  define days where "days = total div DAY"
  define rest where "rest = total mod DAY"
  define secs where "secs = rest div SECOND"
  define us where "us = rest mod SECOND"
  have tot: "total = wall_micros t + delta" unfolding total_def wall_micros_eq by simp
  have unf: "datetime_add t delta =
     (if 0 < days \<and> days \<le> MAXORDINAL
         then (case ord2ymd days of
                 (y, m, d) \<Rightarrow>
                   Inr \<lparr>year = y, month = m, day = d, hour = secs div 3600,
                         minute = (secs mod 3600) div 60, second = (secs mod 3600) mod 60,
                         microsecond = us, tzinfo = tzinfo t\<rparr>)
         else Inl OverflowError)"
    unfolding datetime_add_def Let_def total_def[symmetric] days_def[symmetric] rest_def[symmetric]
      secs_def[symmetric] us_def[symmetric] ..
  have dr: "total = days * DAY + rest" unfolding days_def rest_def by simp
  have rb: "0 \<le> rest" "rest < DAY" unfolding rest_def by (simp_all add: time_units)
  have rs: "rest = secs * SECOND + us" unfolding secs_def us_def by simp
  have ub: "0 \<le> us" "us < SECOND" unfolding us_def by (simp_all add: time_units)
  have sb: "0 \<le> secs" "secs < 86400" using rs rb ub unfolding time_units by linarith+
  from ok unf have rng: "0 < days" "days \<le> MAXORDINAL" by (auto split: if_splits)
  obtain y m d where o: "ord2ymd days = (y, m, d)" by (metis prod_cases3)
  from ok unf rng o have t': "t' = \<lparr>year = y, month = m, day = d, hour = secs div 3600,
                         minute = (secs mod 3600) div 60, second = (secs mod 3600) mod 60,
                         microsecond = us, tzinfo = tzinfo t\<rparr>" by simp
  have d1: "1 \<le> days" using rng by simp
  from ord2ymd_forward[OF d1 o] ord2ymd_year_le[OF d1 rng(2) o]
  have cal: "ymd2ord y m d = days" "1 \<le> y" "y \<le> 9999" "1 \<le> m" "m \<le> 12" "1 \<le> d" "d \<le> days_in_month y m"
    by simp_all
  have w: "wall_micros t' = days * DAY + secs * SECOND + us"
    unfolding wall_micros_def t' toordinal_def using cal(1) secs_split(7)[OF sb] by simp
  have "wall_micros t' = wall_micros t + delta"
    unfolding w tot[symmetric] by (simp only: dr rs add.assoc)
  moreover have "valid_datetime t'"
  proof -
    have ub': "us \<le> 999999" using ub(2) unfolding time_units by simp
    have "check_date_fields y m d" unfolding check_date_fields_def using cal(2-7) by blast
    moreover have "check_time_fields (secs div 3600) ((secs mod 3600) div 60) ((secs mod 3600) mod 60) us"
      unfolding check_time_fields_def using secs_split(1-6)[OF sb] ub(1) ub' by blast
    ultimately show ?thesis unfolding valid_datetime_def t' by simp
  qed
  moreover have "tzinfo t' = tzinfo t" unfolding t' by simp
  ultimately show ?thesis by simp
qed

text \<open>When an addition succeeds: when the day it lands on is in range.\<close>

lemma datetime_add_succeeds:
  assumes "0 < (wall_micros t + delta) div DAY" "(wall_micros t + delta) div DAY \<le> MAXORDINAL"
  shows "\<exists>t'. datetime_add t delta = Inr t'"
proof -
  have "toordinal t * DAY + hour t * HOUR + minute t * MINUTE + second t * SECOND
                    + microsecond t + delta = wall_micros t + delta"
    unfolding wall_micros_eq by simp
  then show ?thesis using assms
    unfolding datetime_add_def Let_def by (auto split: prod.splits)
qed

lemma valid_time_of_day:
  assumes "valid_datetime t"
  shows "wall_micros t = toordinal t * DAY + (wall_micros t - toordinal t * DAY)"
        "0 \<le> wall_micros t - toordinal t * DAY" "wall_micros t - toordinal t * DAY < DAY"
  using assms
    time_split(1,2)[of "hour t" "minute t" "second t" "microsecond t"]
  unfolding wall_micros_eq time_units valid_datetime_def check_time_fields_def
  by simp_all

lemma valid_day_of:
  assumes "valid_datetime t" "0 \<le> delta" "delta < DAY"
          "wall_micros t - toordinal t * DAY + delta < DAY"
  shows "(wall_micros t + delta) div DAY = toordinal t"
proof -
  have "wall_micros t + delta = DAY * toordinal t + (wall_micros t - toordinal t * DAY + delta)" by simp
  moreover have "0 \<le> wall_micros t - toordinal t * DAY + delta"
    using valid_time_of_day(2)[OF assms(1)] assms(2) by simp
  ultimately show ?thesis
    using div_split_const(1)[of "wall_micros t - toordinal t * DAY + delta" DAY "toordinal t"] assms(4)
    by simp
qed

lemma valid_rest_of:
  assumes "valid_datetime t" "0 \<le> delta" "wall_micros t - toordinal t * DAY + delta < DAY"
  shows "(wall_micros t + delta) mod DAY = wall_micros t - toordinal t * DAY + delta"
proof -
  have "wall_micros t + delta = DAY * toordinal t + (wall_micros t - toordinal t * DAY + delta)" by simp
  moreover have "0 \<le> wall_micros t - toordinal t * DAY + delta"
    using valid_time_of_day(2)[OF assms(1)] assms(2) by simp
  ultimately show ?thesis
    using div_split_const(2)[of "wall_micros t - toordinal t * DAY + delta" DAY "toordinal t"] assms(3)
    by simp
qed

text \<open>Adding nothing to a valid datetime gives it back.\<close>

lemma datetime_add_zero:
  assumes v: "valid_datetime t"
  shows "datetime_add t 0 = Inr t"
proof -
  define r where "r = hour t * 3600000000 + minute t * 60000000 + second t * 1000000 + microsecond t"
  have f: "0 \<le> hour t" "hour t \<le> 23" "0 \<le> minute t" "minute t \<le> 59" "0 \<le> second t" "second t \<le> 59"
          "0 \<le> microsecond t" "microsecond t \<le> 999999"
    using v unfolding valid_datetime_def check_time_fields_def by simp_all
  note ts = time_split[OF f, folded r_def]
  have wr: "wall_micros t - toordinal t * DAY = r" unfolding wall_micros_eq r_def time_units by simp
  have day: "(wall_micros t + 0) div DAY = toordinal t"
    using valid_day_of[OF v, of 0] valid_time_of_day(3)[OF v] by (simp add: time_units)
  have rest: "(wall_micros t + 0) mod DAY = r"
    using valid_rest_of[OF v, of 0] valid_time_of_day(3)[OF v] wr by simp
  have o: "ord2ymd (toordinal t) = (year t, month t, day t)"
    unfolding toordinal_def using v
    by (intro ord2ymd_backward) (simp_all add: valid_datetime_def check_date_fields_def)
  have rng: "0 < toordinal t" "toordinal t \<le> MAXORDINAL" using valid_toordinal[OF v] by simp_all
  have tot: "toordinal t * DAY + hour t * HOUR + minute t * MINUTE + second t * SECOND
                    + microsecond t + 0 = wall_micros t + 0"
    unfolding wall_micros_eq by simp
  have s1: "r div SECOND = hour t * 3600 + minute t * 60 + second t" "r mod SECOND = microsecond t"
    using ts(3,4) unfolding time_units by simp_all
  show ?thesis
    unfolding datetime_add_def Let_def tot day rest s1 ts(5,6,7) using rng o by simp
qed

text \<open>
  Claim C7.  For every reading of the clock, as long as the following day still
  exists in Python's calendar (the clock is not on 31 December 9999, where line 93
  raises \<^verbatim>\<open>OverflowError\<close>): the window is computed, its end less its start is 24 hours,
  its step is one hour, and its start is the clock's reading in UTC with minute, second
  and microsecond set to zero.
\<close>

theorem forecast_window_invariant:
  assumes v: "valid_datetime (clock w)" and last: "toordinal (clock w) < MAXORDINAL"
  shows "\<exists>startdate enddate interval.
           forecast_window (datetime_now_utc w) = Inr (startdate, enddate, interval)
           \<and> datetime_sub enddate startdate = Inr (24 * HOUR)
           \<and> interval = 1 * HOUR
           \<and> startdate = (datetime_now_utc w)\<lparr>minute := 0, second := 0, microsecond := 0\<rparr>
           \<and> tzinfo startdate = Some 0 \<and> tzinfo enddate = Some 0"
proof -
  define now where "now = datetime_now_utc w"
  define startdate where "startdate = now\<lparr>minute := 0, second := 0, microsecond := 0\<rparr>"
  have nv: "valid_datetime now" "tzinfo now = Some 0" "toordinal now = toordinal (clock w)"
    using v unfolding now_def datetime_now_utc_def valid_datetime_def toordinal_def by simp_all
  have sv: "valid_datetime startdate" "tzinfo startdate = Some 0" "toordinal startdate = toordinal now"
    using nv(1,2) unfolding startdate_def valid_datetime_def check_time_fields_def toordinal_def
    by simp_all
  have rep: "replace_minute_second_microsecond now 0 0 0 = Inr startdate"
    using nv(1) unfolding replace_minute_second_microsecond_def new_datetime_def startdate_def
      valid_datetime_def check_time_fields_def
    by simp
  have hr: "0 \<le> hour startdate" "hour startdate \<le> 23"
    using sv(1) unfolding valid_datetime_def check_time_fields_def by simp_all
  have tod: "wall_micros startdate - toordinal startdate * DAY = hour startdate * HOUR"
    unfolding wall_micros_eq startdate_def by simp
  have split: "wall_micros startdate + 1 * DAY = DAY * (toordinal startdate + 1) + hour startdate * HOUR"
    using tod by (simp add: algebra_simps)
  have hb: "0 \<le> hour startdate * HOUR" "hour startdate * HOUR < DAY"
    using hr unfolding time_units by simp_all
  have day: "(wall_micros startdate + 1 * DAY) div DAY = toordinal startdate + 1"
    unfolding split using div_split_const(1)[OF hb, of "toordinal startdate + 1"] by simp
  have "0 < toordinal startdate + 1" "toordinal startdate + 1 \<le> MAXORDINAL"
    using valid_toordinal(1)[OF sv(1)] last sv(3) nv(3) by simp_all
  then obtain enddate where e: "datetime_add startdate (1 * DAY) = Inr enddate"
    using datetime_add_succeeds[of startdate "1 * DAY"] day by auto
  from datetime_add_Inr[OF e]
  have ep: "wall_micros enddate = wall_micros startdate + 1 * DAY" "tzinfo enddate = Some 0"
    using sv(2) by simp_all
  have off: "utcoffset startdate = Inr (Some 0)" "utcoffset enddate = Inr (Some 0)"
    using sv(2) ep(2) by (simp_all add: utcoffset_def time_units)
  have sub: "datetime_sub enddate startdate = Inr (24 * HOUR)"
    unfolding datetime_sub_def Let_def off ep(1) by (simp add: time_units)
  have "forecast_window now = Inr (startdate, enddate, 1 * HOUR)"
    using rep e by (simp add: forecast_window_def)
  then show ?thesis using sub sv(2) ep(2) unfolding now_def startdate_def by blast
qed


theorem forecast_window_invariant_witness:
  "\<exists>startdate enddate interval.
      forecast_window (datetime_now_utc (sample_world None)) = Inr (startdate, enddate, interval)
      \<and> datetime_sub enddate startdate = Inr (24 * HOUR)
      \<and> interval = 1 * HOUR
      \<and> startdate = \<lparr>year = 2024, month = 2, day = 29, hour = 13, minute = 0, second = 0,
                       microsecond = 0, tzinfo = Some 0\<rparr>
      \<and> tzinfo startdate = Some 0 \<and> tzinfo enddate = Some 0"
proof -
  have c: "clock (sample_world None) = sample_clock" by (simp add: sample_world_def)
  have v: "valid_datetime (clock (sample_world None))" unfolding c by code_simp
  have l: "toordinal (clock (sample_world None)) < MAXORDINAL" unfolding c by code_simp
  have s: "(datetime_now_utc (sample_world None))\<lparr>minute := 0, second := 0, microsecond := 0\<rparr>
      = \<lparr>year = 2024, month = 2, day = 29, hour = 13, minute = 0, second = 0,
                       microsecond = 0, tzinfo = Some 0\<rparr>"
    by (simp add: datetime_now_utc_def c sample_clock_def)
  show ?thesis using forecast_window_invariant[OF v l] unfolding s .
qed

section \<open>Writing and reading ISO 8601 text\<close>

lemma digit_cases:
  fixes n :: int
  assumes "0 \<le> n" "n < 10"
  shows "n \<in> {0, 1, 2, 3, 4, 5, 6, 7, 8, 9}"
  using assms by (simp add: insert_iff) arith

lemma digit_val_digit_char:
  assumes "0 \<le> n" "n < 10"
  shows "digit_val (digit_char n) = Some n"
  using digit_cases[OF assms] by (auto simp: digit_char_def digit_val_def)

lemma is_digit_char:
  assumes "0 \<le> n" "n < 10"
  shows "is_digit (digit_char n)"
  using digit_val_digit_char[OF assms] by (simp add: is_digit_def)

text \<open>A digit is none of the characters that structure the text.\<close>

lemma is_digit_plain:
  assumes "is_digit c"
  shows "\<not> is_tz_start c" "c \<noteq> CHR '':''" "c \<noteq> CHR ''.''" "c \<noteq> CHR '',''" "c \<noteq> CHR ''W''"
    "c \<noteq> CHR ''-''" "c \<noteq> NUL"
  using assms by (auto simp: is_digit_def digit_val_def is_tz_start_def NUL_def Let_def)

lemma peek_simps [simp]: "peek [] = NUL" "peek (c # s) = c"
  by (simp_all add: peek_def)

lemma peek_append:
  assumes "z \<noteq> []"
  shows "peek (z @ r) = peek z" "peek z \<in> set z"
  using assms by (cases z; simp)+

text \<open>A string of decimal digits.\<close>

lemma decimal_digits:
  assumes "0 \<le> n"
  shows "\<forall>c \<in> set (decimal n). is_digit c"
  using assms
proof (induction n rule: decimal.induct)
  case (1 n)
  show ?case
  proof (cases "n < 10")
    case True
    then show ?thesis using "1.prems" is_digit_char[of n] by (subst decimal.simps) simp
  next
    case False
    then have "0 \<le> n div 10" by simp
    with "1.IH" False have ih: "\<forall>c \<in> set (decimal (n div 10)). is_digit c"
      by simp
    have "0 \<le> n mod 10" "n mod 10 < 10" by simp_all
    then have "is_digit (digit_char (n mod 10))" by (rule is_digit_char)
    then show ?thesis using False ih by (subst decimal.simps) auto
  qed
qed

lemma parse_digits_add:
  "parse_digits (a + b) acc s =
     (case parse_digits a acc s of None \<Rightarrow> None | Some (v, r) \<Rightarrow> parse_digits b v r)"
proof (induction a arbitrary: acc s)
  case 0
  then show ?case by simp
next
  case (Suc a)
  then show ?case by (cases s) (simp_all split: option.splits)
qed

lemma parse_digits_decimal:
  assumes "0 \<le> n"
  shows "parse_digits (length (decimal n)) acc (decimal n @ rest)
           = Some (acc * 10 ^ length (decimal n) + n, rest)"
  using assms
proof (induction n arbitrary: acc rest rule: decimal.induct)
  case (1 n)
  show ?case
  proof (cases "n < 10")
    case True
    then have d: "decimal n = [digit_char n]" by (subst decimal.simps) simp
    show ?thesis unfolding d using digit_val_digit_char[OF "1.prems" True] by simp
  next
    case False
    then have d: "decimal n = decimal (n div 10) @ [digit_char (n mod 10)]"
      by (subst decimal.simps) simp
    have q: "0 \<le> n div 10" using False by simp
    have m: "0 \<le> n mod 10" "n mod 10 < 10" by simp_all
    have ih: "parse_digits (length (decimal (n div 10))) acc (decimal (n div 10) @ (digit_char (n mod 10) # rest))
           = Some (acc * 10 ^ length (decimal (n div 10)) + n div 10, digit_char (n mod 10) # rest)"
      using "1.IH"[OF False q] by simp
    have "parse_digits (length (decimal n)) acc (decimal n @ rest)
          = parse_digits (length (decimal (n div 10)) + 1) acc
              (decimal (n div 10) @ (digit_char (n mod 10) # rest))"
      unfolding d by simp
    also have "\<dots> = Some ((acc * 10 ^ length (decimal (n div 10)) + n div 10) * 10 + n mod 10, rest)"
      unfolding parse_digits_add ih using digit_val_digit_char[OF m] by simp
    also have "(acc * 10 ^ length (decimal (n div 10)) + n div 10) * 10 + n mod 10
               = acc * 10 ^ length (decimal n) + n"
    proof -
      have "length (decimal n) = Suc (length (decimal (n div 10)))" unfolding d by simp
      moreover have "n div 10 * 10 + n mod 10 = n" by simp
      ultimately show ?thesis by (simp add: algebra_simps)
    qed
    finally show ?thesis .
  qed
qed

lemma parse_digits_zeros:
  "parse_digits (k + j) 0 (replicate k CHR ''0'' @ s) = parse_digits j 0 s"
proof (induction k)
  case 0
  then show ?case by simp
next
  case (Suc k)
  have "digit_val CHR ''0'' = Some 0" by (simp add: digit_val_def)
  then show ?case using Suc by simp
qed

lemma decimal_length:
  assumes "0 \<le> n" "n < 10 ^ w" "0 < w"
  shows "length (decimal n) \<le> w"
  using assms
proof (induction n arbitrary: w rule: decimal.induct)
  case (1 n)
  show ?case
  proof (cases "n < 10")
    case True
    then have "decimal n = [digit_char n]" by (subst decimal.simps) simp
    then show ?thesis using "1.prems"(3) by simp
  next
    case False
    then have d: "decimal n = decimal (n div 10) @ [digit_char (n mod 10)]"
      by (subst decimal.simps) simp
    obtain w' where w: "w = Suc w'" using "1.prems"(3) by (cases w) simp_all
    have "w' \<noteq> 0" using False "1.prems"(2) w by (cases w') simp_all
    then have w'0: "0 < w'" by simp
    have "n < 10 * 10 ^ w'" using "1.prems"(2) w by simp
    then have "n div 10 < 10 ^ w'" by simp
    moreover have "0 \<le> n div 10" using False by simp
    ultimately have "length (decimal (n div 10)) \<le> w'"
      using "1.IH"[OF False _ _ w'0] by simp
    then show ?thesis unfolding d w by simp
  qed
qed

text \<open>The zero-padded field of width \<open>w\<close> for a value that fits it.\<close>

lemma zero_pad_fits:
  assumes "0 \<le> v" "v < 10 ^ w" "0 < w"
  shows "length (zero_pad w v) = w"
    and "parse_digits w 0 (zero_pad w v @ rest) = Some (v, rest)"
    and "\<forall>c \<in> set (zero_pad w v). is_digit c"
proof -
  define k where "k = w - length (decimal v)"
  have len: "length (decimal v) \<le> w" using decimal_length[OF assms] .
  then have w: "w = k + length (decimal v)" unfolding k_def by simp
  have z: "zero_pad w v = replicate k CHR ''0'' @ decimal v"
    unfolding zero_pad_def k_def using assms(1) by simp
  show "length (zero_pad w v) = w" unfolding z using w by simp
  have "parse_digits w 0 (zero_pad w v @ rest)
        = parse_digits (k + length (decimal v)) 0 (replicate k CHR ''0'' @ (decimal v @ rest))"
    unfolding z using w by simp
  also have "\<dots> = Some (v, rest)"
    unfolding parse_digits_zeros parse_digits_decimal[OF assms(1)] by simp
  finally show "parse_digits w 0 (zero_pad w v @ rest) = Some (v, rest)" .
  have zero: "is_digit CHR ''0''" by (simp add: is_digit_def digit_val_def)
  show "\<forall>c \<in> set (zero_pad w v). is_digit c"
    unfolding z using zero decimal_digits[OF assms(1)] by auto
qed

lemma zero_pad2:
  assumes "0 \<le> v" "v \<le> 99"
  shows "length (zero_pad 2 v) = 2"
        "parse_digits 2 0 (zero_pad 2 v @ rest) = Some (v, rest)"
        "\<forall>c \<in> set (zero_pad 2 v). is_digit c"
        "is_digit (peek (zero_pad 2 v @ rest))"
proof -
  have b: "v < 10 ^ 2" using assms(2) by simp
  show l: "length (zero_pad 2 v) = 2" using zero_pad_fits(1)[OF assms(1) b] by simp
  show "parse_digits 2 0 (zero_pad 2 v @ rest) = Some (v, rest)"
    using zero_pad_fits(2)[OF assms(1) b] by simp
  show d: "\<forall>c \<in> set (zero_pad 2 v). is_digit c"
    using zero_pad_fits(3)[OF assms(1) b] by simp
  have "zero_pad 2 v \<noteq> []" using l by auto
  from peek_append[OF this] d show "is_digit (peek (zero_pad 2 v @ rest))" by simp
qed

lemma zero_pad4:
  assumes "0 \<le> v" "v \<le> 9999"
  shows "length (zero_pad 4 v) = 4"
        "parse_digits 4 0 (zero_pad 4 v @ rest) = Some (v, rest)"
proof -
  have b: "v < 10 ^ 4" using assms(2) by simp
  show "length (zero_pad 4 v) = 4" using zero_pad_fits(1)[OF assms(1) b] by simp
  show "parse_digits 4 0 (zero_pad 4 v @ rest) = Some (v, rest)"
    using zero_pad_fits(2)[OF assms(1) b] by simp
qed

lemma zero_pad6:
  assumes "0 \<le> v" "v \<le> 999999"
  shows "length (zero_pad 6 v) = 6"
        "parse_digits 6 0 (zero_pad 6 v @ rest) = Some (v, rest)"
        "\<forall>c \<in> set (zero_pad 6 v). is_digit c"
proof -
  have b: "v < 10 ^ 6" using assms(2) by simp
  show "length (zero_pad 6 v) = 6" using zero_pad_fits(1)[OF assms(1) b] by simp
  show "parse_digits 6 0 (zero_pad 6 v @ rest) = Some (v, rest)"
    using zero_pad_fits(2)[OF assms(1) b] by simp
  show "\<forall>c \<in> set (zero_pad 6 v). is_digit c"
    using zero_pad_fits(3)[OF assms(1) b] by simp
qed

text \<open>The date part of a text \<^verbatim>\<open>YYYY-MM-DD\<close> followed by anything.\<close>

lemma separator_of_format:
  fixes T :: string
  assumes "0 \<le> y" "y \<le> 9999" "0 \<le> m" "m \<le> 99" "0 \<le> d" "d \<le> 99"
  defines "s \<equiv> zero_pad 4 y @ CHR ''-'' # zero_pad 2 m @ CHR ''-'' # zero_pad 2 d @ CHR ''T'' # T"
  shows "find_isoformat_datetime_separator s = Some 10"
    and "length s = 11 + length T" and "s ! 10 = CHR ''T''" and "drop 11 s = T"
proof -
  note l = zero_pad4(1)[OF assms(1,2)] zero_pad2(1)[OF assms(3,4)] zero_pad2(1)[OF assms(5,6)]
  show len: "length s = 11 + length T" unfolding s_def using l by simp
  have s4: "s ! 4 = CHR ''-''" unfolding s_def using l(1) by (simp add: nth_append)
  have "s ! 5 = peek (zero_pad 2 m @ CHR ''-'' # zero_pad 2 d @ CHR ''T'' # T)"
    unfolding s_def using l by (cases "zero_pad 2 m") (simp_all add: nth_append)
  then have s5: "s ! 5 \<noteq> CHR ''W''"
    using is_digit_plain(5)[OF zero_pad2(4)[OF assms(3,4)]] by simp
  show "find_isoformat_datetime_separator s = Some 10"
    unfolding find_isoformat_datetime_separator_def Let_def using len s4 s5 by simp
  define P where "P = zero_pad 4 y @ CHR ''-'' # zero_pad 2 m @ CHR ''-'' # zero_pad 2 d"
  have sP: "s = P @ CHR ''T'' # T" unfolding s_def P_def by simp
  have lP: "length P = 10" unfolding P_def using l by simp
  have "(P @ CHR ''T'' # T) ! length P = CHR ''T''" by (rule nth_append_length)
  then show "s ! 10 = CHR ''T''" unfolding sP lP .
  have "drop (Suc (length P)) (P @ CHR ''T'' # T) = T" by simp
  then show "drop 11 s = T" unfolding sP lP by simp
qed

lemma parse_date_of_format:
  assumes "0 \<le> y" "y \<le> 9999" "0 \<le> m" "m \<le> 99" "0 \<le> d" "d \<le> 99"
  shows "parse_isoformat_date (zero_pad 4 y @ CHR ''-'' # zero_pad 2 m @ CHR ''-'' # zero_pad 2 d @ R) len
           = Some (y, m, d)"
proof -
  have w: "peek (zero_pad 2 m @ CHR ''-'' # zero_pad 2 d @ R) \<noteq> CHR ''W''"
    using is_digit_plain(5)[OF zero_pad2(4)[OF assms(3,4)]] by simp
  show ?thesis
    unfolding parse_isoformat_date_def
    apply (subst zero_pad4(2)[OF assms(1,2)])
    apply (simp only: option.case prod.case Let_def peek_simps simp_thms if_True drop_Suc_Cons drop_0 One_nat_def w if_False)
    apply (subst zero_pad2(2)[OF assms(3,4)])
    apply (simp only: option.case prod.case Let_def peek_simps simp_thms if_True drop_Suc_Cons drop_0 One_nat_def if_False)
    apply (subst zero_pad2(2)[OF assms(5,6)])
    apply (simp only: option.case prod.case)
    done
qed

text \<open>One turn of the loop on a field of two digits.\<close>

lemma parse_hh_mm_ss_colon:
  assumes "0 \<le> v" "v \<le> 99" "end_len < length R" "sep \<noteq> Some False"
  shows "parse_hh_mm_ss (Suc k) sep end_len (zero_pad 2 v @ CHR '':'' # R)
           = prepend v (parse_hh_mm_ss k (Some True) end_len R)"
proof -
  have hs: "(case sep of None \<Rightarrow> True | Some b \<Rightarrow> b) = True"
    using assms(4) by (cases sep) simp_all
  have nl: "\<not> length R \<le> end_len" using assms(3) by simp
  show ?thesis
    apply (subst parse_hh_mm_ss.simps)
    apply (subst zero_pad2(2)[OF assms(1,2)])
    apply (simp only: option.case prod.case Let_def peek_simps simp_thms drop_Suc_Cons drop_0 One_nat_def
             hs nl if_False if_True)
    done
qed

lemma parse_hh_mm_ss_point:
  assumes "0 \<le> v" "v \<le> 99" "end_len < length R" "sep \<noteq> Some False"
  shows "parse_hh_mm_ss (Suc k) sep end_len (zero_pad 2 v @ CHR ''.'' # R) = Some ([v], Inr R)"
proof -
  have hs: "(case sep of None \<Rightarrow> CHR ''.'' = CHR '':'' | Some b \<Rightarrow> b) = (sep = Some True)"
    using assms(4) by (cases sep) simp_all
  have nl: "\<not> length R \<le> end_len" using assms(3) by simp
  have ne: "(CHR ''.'' = CHR '':'') = False" by simp
  show ?thesis
    apply (subst parse_hh_mm_ss.simps)
    apply (subst zero_pad2(2)[OF assms(1,2)])
    apply (simp only: option.case prod.case Let_def peek_simps simp_thms drop_Suc_Cons drop_0 One_nat_def
             hs nl ne if_False if_True)
    done
qed

lemma parse_hh_mm_ss_last:
  assumes "0 \<le> v" "v \<le> 99" "length R \<le> Suc end_len"
  shows "parse_hh_mm_ss (Suc k) sep end_len (zero_pad 2 v @ R) = Some ([v], Inl (peek R \<noteq> NUL))"
proof -
  have nl: "length (drop 1 R) \<le> end_len" using assms(3) by simp
  show ?thesis
    apply (subst parse_hh_mm_ss.simps)
    apply (subst zero_pad2(2)[OF assms(1,2)])
    apply (simp only: option.case prod.case Let_def nl if_True)
    done
qed

lemma three_fields: "(3::nat) = Suc (Suc (Suc 0))"
  by simp

lemma sep_unset: "(None :: bool option) \<noteq> Some False"
  by simp

lemma sep_colon: "Some True \<noteq> Some False"
  by simp

text \<open>The time of day as \<^verbatim>\<open>isoformat\<close> writes it, followed by a text \<open>Z\<close>.\<close>

lemma format_time_shape:
  "format_time hh mi ss us @ Z
     = zero_pad 2 hh @ CHR '':'' # zero_pad 2 mi @ CHR '':'' # zero_pad 2 ss
         @ (if us \<noteq> 0 then CHR ''.'' # zero_pad 6 us @ Z else Z)"
  unfolding format_time_def by simp

lemma parse_time_of_format:
  assumes "0 \<le> hh" "hh \<le> 99" "0 \<le> mi" "mi \<le> 99" "0 \<le> ss" "ss \<le> 99" "0 \<le> us" "us \<le> 999999"
      and z: "\<not> is_digit (peek Z)"
  shows "parse_hh_mm_ss_ff (format_time hh mi ss us @ Z) (length Z)
           = Some ((hh, mi, ss, us), peek Z \<noteq> NUL)"
proof (cases "us = 0")
  case True
  have f: "format_time hh mi ss us @ Z
             = zero_pad 2 hh @ CHR '':'' # (zero_pad 2 mi @ CHR '':'' # (zero_pad 2 ss @ Z))"
    unfolding format_time_shape using True by simp
  have l1: "length Z < length (zero_pad 2 mi @ CHR '':'' # (zero_pad 2 ss @ Z))" by simp
  have l2: "length Z < length (zero_pad 2 ss @ Z)" using zero_pad2(1)[OF assms(5,6)] by simp
  have l3: "length Z \<le> Suc (length Z)" by simp
  have "parse_hh_mm_ss 3 None (length Z) (format_time hh mi ss us @ Z)
          = Some ([hh, mi, ss], Inl (peek Z \<noteq> NUL))"
    unfolding f three_fields
    unfolding parse_hh_mm_ss_colon[OF assms(1,2) l1 sep_unset]
    unfolding parse_hh_mm_ss_colon[OF assms(3,4) l2 sep_colon]
    unfolding parse_hh_mm_ss_last[OF assms(5,6) l3]
    by (simp add: prepend_def)
  then show ?thesis
    unfolding parse_hh_mm_ss_ff_def using True by (simp add: nth_field_def)
next
  case False
  have f: "format_time hh mi ss us @ Z
             = zero_pad 2 hh @ CHR '':'' # (zero_pad 2 mi @ CHR '':'' # (zero_pad 2 ss @ CHR ''.'' # (zero_pad 6 us @ Z)))"
    unfolding format_time_shape using False by simp
  have l1: "length Z < length (zero_pad 2 mi @ CHR '':'' # (zero_pad 2 ss @ CHR ''.'' # (zero_pad 6 us @ Z)))" by simp
  have l2: "length Z < length (zero_pad 2 ss @ CHR ''.'' # (zero_pad 6 us @ Z))" by simp
  have l3: "length Z < length (zero_pad 6 us @ Z)" using zero_pad6(1)[OF assms(7,8)] by simp
  have r: "parse_hh_mm_ss 3 None (length Z) (format_time hh mi ss us @ Z)
          = Some ([hh, mi, ss], Inr (zero_pad 6 us @ Z))"
    unfolding f three_fields
    unfolding parse_hh_mm_ss_colon[OF assms(1,2) l1 sep_unset]
    unfolding parse_hh_mm_ss_colon[OF assms(3,4) l2 sep_colon]
    unfolding parse_hh_mm_ss_point[OF assms(5,6) l3 sep_colon]
    by (simp add: prepend_def)
  have dz: "dropWhile is_digit Z = Z" using z by (cases Z) simp_all
  have six: "length (zero_pad 6 us @ Z) - length Z = 6" using zero_pad6(1)[OF assms(7,8)] by simp
  show ?thesis
    unfolding parse_hh_mm_ss_ff_def r
    apply (simp only: option.case prod.case sum.case Let_def six order_refl if_True)
    apply (simp only: zero_pad6(2)[OF assms(7,8)] option.case prod.case dz)
    apply (simp add: nth_field_def)
    done
qed

lemma format_time_plain:
  assumes "0 \<le> hh" "hh \<le> 99" "0 \<le> mi" "mi \<le> 99" "0 \<le> ss" "ss \<le> 99" "0 \<le> us" "us \<le> 999999"
  shows "\<forall>c \<in> set (format_time hh mi ss us). \<not> is_tz_start c"
proof
  fix c assume "c \<in> set (format_time hh mi ss us)"
  then consider "c \<in> set (zero_pad 2 hh)" | "c = CHR '':''" | "c \<in> set (zero_pad 2 mi)"
    | "c \<in> set (zero_pad 2 ss)" | "c = CHR ''.''" | "c \<in> set (zero_pad 6 us)"
    unfolding format_time_def by (auto split: if_splits)
  then show "\<not> is_tz_start c"
    using zero_pad2(3)[OF assms(1,2)] zero_pad2(3)[OF assms(3,4)] zero_pad2(3)[OF assms(5,6)]
      zero_pad6(3)[OF assms(7,8)] is_digit_plain(1)[of c]
    by cases (auto simp: is_tz_start_def)
qed

text \<open>An offset of whole seconds, by absolute value \<open>K\<close>.\<close>

lemma scaled_div_mod:
  fixes x y c :: int
  assumes "0 < c"
  shows "(x * c) div (y * c) = x div y" "(x * c) mod (y * c) = (x mod y) * c"
  using assms by simp_all

lemma offset_fields:
  fixes K :: int
  defines "a \<equiv> K * SECOND"
  shows "a div HOUR = K div 3600"
    "(a mod HOUR) div MINUTE = (K mod 3600) div 60"
    "((a mod HOUR) mod MINUTE) div SECOND = (K mod 3600) mod 60"
    "((a mod HOUR) mod MINUTE) mod SECOND = 0"
    "((a mod HOUR) mod MINUTE = 0) = ((K mod 3600) mod 60 = 0)"
proof -
  have h: "HOUR = 3600 * SECOND" "MINUTE = 60 * SECOND" by (simp_all add: time_units)
  have c: "0 < SECOND" by (simp add: time_units)
  have m1: "a mod HOUR = (K mod 3600) * SECOND"
    unfolding a_def h(1) by (rule scaled_div_mod(2)[OF c])
  have m2: "(a mod HOUR) mod MINUTE = ((K mod 3600) mod 60) * SECOND"
    unfolding m1 h(2) by (rule scaled_div_mod(2)[OF c])
  show "a div HOUR = K div 3600" unfolding a_def h(1) by (rule scaled_div_mod(1)[OF c])
  show "(a mod HOUR) div MINUTE = (K mod 3600) div 60"
    unfolding m1 h(2) by (rule scaled_div_mod(1)[OF c])
  show "((a mod HOUR) mod MINUTE) div SECOND = (K mod 3600) mod 60"
    unfolding m2 using c by simp
  show "((a mod HOUR) mod MINUTE) mod SECOND = 0" unfolding m2 by simp
  show "((a mod HOUR) mod MINUTE = 0) = ((K mod 3600) mod 60 = 0)" unfolding m2 using c by simp
qed

lemma format_offset_shape:
  "format_offset (Some v)
     = (if v < 0 then CHR ''-'' else CHR ''+'')
         # (zero_pad 2 ((if v < 0 then - v else v) div HOUR)
            @ (CHR '':'' # zero_pad 2 (((if v < 0 then - v else v) mod HOUR) div MINUTE)
            @ (if ((if v < 0 then - v else v) mod HOUR) mod MINUTE \<noteq> 0
               then CHR '':'' # zero_pad 2 ((((if v < 0 then - v else v) mod HOUR) mod MINUTE) div SECOND)
                      @ (if (((if v < 0 then - v else v) mod HOUR) mod MINUTE) mod SECOND \<noteq> 0
                         then CHR ''.'' # zero_pad 6 ((((if v < 0 then - v else v) mod HOUR) mod MINUTE) mod SECOND)
                         else [])
               else [])))"
proof -
  define a where "a = (if v < 0 then - v else v)"
  show ?thesis
    unfolding format_offset_def Let_def option.case a_def[symmetric]
    by (cases "v < 0"; cases "(a mod HOUR) mod MINUTE = 0"; cases "((a mod HOUR) mod MINUTE) mod SECOND = 0")
       (simp_all only: if_True if_False append_Cons append_Nil append_Nil2 append_assoc simp_thms)
qed

lemma format_offset_seconds:
  fixes k :: int
  defines "K \<equiv> (if k < 0 then - k else k)"
  shows "format_offset (Some (k * SECOND))
           = (if k < 0 then CHR ''-'' else CHR ''+'')
               # (zero_pad 2 (K div 3600) @ (CHR '':'' # zero_pad 2 ((K mod 3600) div 60)
                   @ (if (K mod 3600) mod 60 \<noteq> 0 then CHR '':'' # zero_pad 2 ((K mod 3600) mod 60) else [])))"
proof -
  have neg: "(k * SECOND < 0) = (k < 0)" by (simp add: mult_less_0_iff time_units)
  have a: "(if k < 0 then - (k * SECOND) else k * SECOND) = K * SECOND"
    unfolding K_def by simp
  show ?thesis
    unfolding format_offset_shape neg a offset_fields
    by (simp only: simp_thms if_False append_Nil2)
qed


text \<open>The text of an offset of whole seconds, without its sign.\<close>

lemma parse_offset_of_format:
  assumes "0 \<le> H" "H \<le> 99" "0 \<le> M" "M \<le> 99" "0 \<le> S" "S \<le> 99"
  shows "parse_hh_mm_ss_ff (zero_pad 2 H @ (CHR '':'' # zero_pad 2 M
                   @ (if S \<noteq> 0 then CHR '':'' # zero_pad 2 S else []))) 0
           = Some ((H, M, S, 0), False)"
proof (cases "S = 0")
  case True
  have f: "zero_pad 2 H @ (CHR '':'' # zero_pad 2 M @ (if S \<noteq> 0 then CHR '':'' # zero_pad 2 S else []))
             = zero_pad 2 H @ CHR '':'' # (zero_pad 2 M @ [])"
    using True by simp
  have l1: "0 < length (zero_pad 2 M @ [])" using zero_pad2(1)[OF assms(3,4)] by simp
  have l2: "length ([]::string) \<le> Suc 0" by simp
  have "parse_hh_mm_ss 3 None 0 (zero_pad 2 H @ CHR '':'' # (zero_pad 2 M @ [])) = Some ([H, M], Inl False)"
    unfolding three_fields
    unfolding parse_hh_mm_ss_colon[OF assms(1,2) l1 sep_unset]
    unfolding parse_hh_mm_ss_last[OF assms(3,4) l2]
    by (simp add: prepend_def)
  then show ?thesis unfolding parse_hh_mm_ss_ff_def f using True by (simp add: nth_field_def)
next
  case False
  have f: "zero_pad 2 H @ (CHR '':'' # zero_pad 2 M @ (if S \<noteq> 0 then CHR '':'' # zero_pad 2 S else []))
             = zero_pad 2 H @ CHR '':'' # (zero_pad 2 M @ CHR '':'' # (zero_pad 2 S @ []))"
    using False by simp
  have l1: "0 < length (zero_pad 2 M @ CHR '':'' # (zero_pad 2 S @ []))" by simp
  have l2: "0 < length (zero_pad 2 S @ [])" using zero_pad2(1)[OF assms(5,6)] by simp
  have l3: "length ([]::string) \<le> Suc 0" by simp
  have "parse_hh_mm_ss 3 None 0 (zero_pad 2 H @ CHR '':'' # (zero_pad 2 M @ CHR '':'' # (zero_pad 2 S @ [])))
          = Some ([H, M, S], Inl False)"
    unfolding three_fields
    unfolding parse_hh_mm_ss_colon[OF assms(1,2) l1 sep_unset]
    unfolding parse_hh_mm_ss_colon[OF assms(3,4) l2 sep_colon]
    unfolding parse_hh_mm_ss_last[OF assms(5,6) l3]
    by (simp add: prepend_def)
  then show ?thesis unfolding parse_hh_mm_ss_ff_def f by (simp add: nth_field_def)
qed

text \<open>The time of day followed by an offset of whole seconds.\<close>

lemma parse_isoformat_time_of_format:
  assumes t: "0 \<le> hh" "hh \<le> 99" "0 \<le> mi" "mi \<le> 99" "0 \<le> ss" "ss \<le> 99" "0 \<le> us" "us \<le> 999999"
      and k: "- 86400 < k" "k < 86400"
  shows "parse_isoformat_time (format_time hh mi ss us @ format_offset (Some (k * SECOND)))
           = Some ((hh, mi, ss, us), Some (k, 0))"
proof -
  define K where "K = (if k < 0 then - k else k)"
  have Kb: "0 \<le> K" "K < 86400" unfolding K_def using k by (simp_all split: if_splits)
  define H where "H = K div 3600"
  define M where "M = (K mod 3600) div 60"
  define S where "S = (K mod 3600) mod 60"
  note sp = secs_split[OF Kb, folded H_def M_def S_def]
  have Hb: "0 \<le> H" "H \<le> 99" and Mb: "0 \<le> M" "M \<le> 99" and Sb: "0 \<le> S" "S \<le> 99"
    using sp(1-6) by linarith+
  define sc where "sc = (if k < 0 then CHR ''-'' else CHR ''+'')"
  define body where "body = zero_pad 2 H @ (CHR '':'' # zero_pad 2 M
                   @ (if S \<noteq> 0 then CHR '':'' # zero_pad 2 S else []))"
  have fo: "format_offset (Some (k * SECOND)) = sc # body"
    unfolding format_offset_seconds sc_def body_def H_def M_def S_def K_def ..
  have sg: "is_tz_start sc" "sc \<noteq> CHR ''Z''" "\<not> is_digit sc" "sc \<noteq> NUL"
    unfolding sc_def is_tz_start_def is_digit_def digit_val_def NUL_def by simp_all
  have plain: "\<And>c. c \<in> set (format_time hh mi ss us) \<Longrightarrow> \<not> is_tz_start c"
    using format_time_plain[OF t] by blast
  have dw: "dropWhile (\<lambda>c. \<not> is_tz_start c) (format_time hh mi ss us @ sc # body) = sc # body"
    using plain sg(1) by (simp add: dropWhile_append2)
  have pt: "parse_hh_mm_ss_ff (format_time hh mi ss us @ sc # body) (length (sc # body))
              = Some ((hh, mi, ss, us), True)"
    using parse_time_of_format[OF t, of "sc # body"] sg(3,4) by simp
  have pb: "parse_hh_mm_ss_ff body 0 = Some ((H, M, S, 0), False)"
    unfolding body_def by (rule parse_offset_of_format[OF Hb Mb Sb])
  have td: "H * 3600 + M * 60 + S = K" using sp(7) by (simp add: algebra_simps)
  have off: "(if sc = CHR ''-'' then - 1 else 1) * K = k"
    unfolding sc_def K_def by simp
  show ?thesis
    unfolding parse_isoformat_time_def fo Let_def dw pt
    apply (simp only: option.case list.case prod.case sg(2) if_False pb td off)
    apply simp
    done
qed

lemma fromisoformat_valid:
  assumes "fromisoformat s = Inr t"
  shows "valid_datetime t"
proof -
  from assms obtain y m d hh mi ss us tz where "new_datetime y m d hh mi ss us tz = Inr t"
    unfolding fromisoformat_def
    by (auto split: option.splits prod.splits if_splits sum.splits)
  then show ?thesis
    unfolding new_datetime_def valid_datetime_def by (auto split: if_splits)
qed

text \<open>\<^verbatim>\<open>fromisoformat\<close> reads back what \<^verbatim>\<open>isoformat\<close> writes.\<close>

lemma fromisoformat_isoformat:
  assumes v: "valid_datetime t" and tz: "tzinfo t = Some (k * SECOND)"
      and k: "- 86400 < k" "k < 86400"
  shows "\<exists>s. isoformat t = Inr s \<and> fromisoformat s = Inr t"
proof -
  have d: "1 \<le> year t" "year t \<le> 9999" "1 \<le> month t" "month t \<le> 12" "1 \<le> day t"
          "day t \<le> days_in_month (year t) (month t)"
    using v unfolding valid_datetime_def check_date_fields_def by simp_all
  have d31: "day t \<le> 31" using d(6) dim_bounds(2)[OF d(3,4), of "year t"] by simp
  have f: "0 \<le> hour t" "hour t \<le> 23" "0 \<le> minute t" "minute t \<le> 59" "0 \<le> second t" "second t \<le> 59"
          "0 \<le> microsecond t" "microsecond t \<le> 999999"
    using v unfolding valid_datetime_def check_time_fields_def by simp_all
  have yb: "0 \<le> year t" "year t \<le> 9999" using d by simp_all
  have mb: "0 \<le> month t" "month t \<le> 99" using d by simp_all
  have db: "0 \<le> day t" "day t \<le> 99" using d d31 by simp_all
  have tb: "0 \<le> hour t" "hour t \<le> 99" "0 \<le> minute t" "minute t \<le> 99" "0 \<le> second t" "second t \<le> 99"
           "0 \<le> microsecond t" "microsecond t \<le> 999999"
    using f by simp_all
  define T where "T = format_time (hour t) (minute t) (second t) (microsecond t)
                        @ format_offset (Some (k * SECOND))"
  define s where "s = zero_pad 4 (year t) @ CHR ''-'' # zero_pad 2 (month t) @ CHR ''-'' # zero_pad 2 (day t)
                        @ CHR ''T'' # T"
  have off: "utcoffset t = Inr (Some (k * SECOND))"
    unfolding utcoffset_def tz using k by (simp add: time_units)
  have iso: "isoformat t = Inr s"
    unfolding isoformat_def off s_def T_def by simp
  note sep = separator_of_format[OF yb mb db, of T, folded s_def]
  have pd: "parse_isoformat_date s 10 = Some (year t, month t, day t)"
    unfolding s_def by (rule parse_date_of_format[OF yb mb db])
  have pt: "parse_isoformat_time T
              = Some ((hour t, minute t, second t, microsecond t), Some (k, 0))"
    unfolding T_def by (rule parse_isoformat_time_of_format[OF tb k])
  have tzr: "tzinfo_from_isoformat_results (Some (k, 0)) = Inr (Some (k * SECOND))"
    unfolding tzinfo_from_isoformat_results_def using k by (simp add: time_units)
  have nd: "new_datetime (year t) (month t) (day t) (hour t) (minute t) (second t) (microsecond t)
              (Some (k * SECOND)) = Inr t"
    using v tz unfolding new_datetime_def valid_datetime_def by simp
  have w: "separator_width CHR ''T'' = 1" by (simp add: separator_width_def)
  have "fromisoformat s = Inr t"
    using sep pd pt tzr nd w by (simp add: fromisoformat_def)
  then show ?thesis using iso by blast
qed

section \<open>Converting a time stamp (lines 141--144)\<close>

lemma datetime_add_overflows:
  assumes "\<not> (0 < (wall_micros t + delta) div DAY \<and> (wall_micros t + delta) div DAY \<le> MAXORDINAL)"
  shows "datetime_add t delta = Inl OverflowError"
proof -
  have "toordinal t * DAY + hour t * HOUR + minute t * MINUTE + second t * SECOND
                    + microsecond t + delta = wall_micros t + delta"
    unfolding wall_micros_eq by simp
  then show ?thesis using assms
    unfolding datetime_add_def Let_def by (auto split: prod.splits)
qed

lemma wall_micros_tzinfo [simp]: "wall_micros (t\<lparr>tzinfo := z\<rparr>) = wall_micros t"
  by (simp add: wall_micros_def toordinal_def)

lemma valid_datetime_tzinfo [simp]: "valid_datetime (t\<lparr>tzinfo := z\<rparr>) = valid_datetime t"
  by (simp add: valid_datetime_def)

text \<open>\<^verbatim>\<open>astimezone\<close> on a valid datetime that carries UTC.\<close>

lemma astimezone_from_utc:
  assumes v: "valid_datetime u" and z: "tzinfo u = Some 0"
      and lo: "0 < (wall_micros u + tz (u\<lparr>tzinfo := None\<rparr>) * SECOND) div DAY"
      and hi: "(wall_micros u + tz (u\<lparr>tzinfo := None\<rparr>) * SECOND) div DAY \<le> MAXORDINAL"
  shows "\<exists>l. astimezone u tz = Inr l \<and> valid_datetime l
             \<and> tzinfo l = Some (tz (u\<lparr>tzinfo := None\<rparr>) * SECOND)
             \<and> wall_micros l = wall_micros u + tz (u\<lparr>tzinfo := None\<rparr>) * SECOND"
proof -
  define off where "off = tz (u\<lparr>tzinfo := None\<rparr>) * SECOND"
  have uo: "utcoffset u = Inr (Some 0)" unfolding utcoffset_def z by (simp add: time_units)
  obtain l where l: "datetime_add u off = Inr l"
    using datetime_add_succeeds[of u off] lo hi unfolding off_def by blast
  from datetime_add_Inr[OF l] have lp: "wall_micros l = wall_micros u + off" "valid_datetime l"
    by simp_all
  have "astimezone u tz = Inr (l\<lparr>tzinfo := Some off\<rparr>)"
    unfolding astimezone_def uo fromutc_def Let_def
    using datetime_add_zero[OF v] l[unfolded off_def] by (simp add: off_def)
  then show ?thesis using lp unfolding off_def by simp
qed

lemma astimezone_UTC:
  assumes v: "valid_datetime u" and z: "tzinfo u = Some 0"
  shows "astimezone u pytz_UTC = Inr u"
proof -
  have uo: "utcoffset u = Inr (Some 0)" unfolding utcoffset_def z by (simp add: time_units)
  have "u\<lparr>tzinfo := Some 0\<rparr> = u" using z by simp
  then show ?thesis
    unfolding astimezone_def uo fromutc_def Let_def pytz_UTC_def
    using datetime_add_zero[OF v] by simp
qed

text \<open>The conversion of a text that parses.\<close>

lemma convert_validdate_parsed:
  assumes "fromisoformat s = Inr p"
  shows "convert_validdate tz (VStr s)
           = (case astimezone (p\<lparr>tzinfo := Some 0\<rparr>) tz of Inl e \<Rightarrow> Inl e | Inr l \<Rightarrow> isoformat l)"
  unfolding convert_validdate_def using assms by (simp add: Let_def)


text \<open>
  \<^verbatim>\<open>astimezone\<close> raises \<^verbatim>\<open>OverflowError\<close> when the local day is not a day of the
  calendar.
\<close>

lemma astimezone_overflows:
  assumes v: "valid_datetime u" and z: "tzinfo u = Some 0"
      and out: "\<not> (0 < (wall_micros u + tz (u\<lparr>tzinfo := None\<rparr>) * SECOND) div DAY
                  \<and> (wall_micros u + tz (u\<lparr>tzinfo := None\<rparr>) * SECOND) div DAY \<le> MAXORDINAL)"
  shows "astimezone u tz = Inl OverflowError"
proof -
  have uo: "utcoffset u = Inr (Some 0)" unfolding utcoffset_def z by (simp add: time_units)
  show ?thesis
    unfolding astimezone_def uo fromutc_def Let_def
    using datetime_add_zero[OF v] datetime_add_overflows[OF out] by simp
qed

text \<open>
  Claim C8 as stated fails at the ends of the calendar: the first hour of the year 1,
  a well-formed UTC time stamp, has no local time in a zone behind UTC.  The conversion
  raises \<^verbatim>\<open>OverflowError\<close>, the reading's \<^verbatim>\<open>validdate\<close> becomes \<^verbatim>\<open>None\<close>, and there is no
  text to parse again.
\<close>

theorem localize_out_of_calendar_counterexample:
  "fromisoformat ''0001-01-01T00:00:00+00:00''
     = Inr \<lparr>year = 1, month = 1, day = 1, hour = 0, minute = 0, second = 0,
             microsecond = 0, tzinfo = Some 0\<rparr>
   \<and> convert_validdate (\<lambda>t. - 18000) (VStr ''0001-01-01T00:00:00+00:00'') = Inl OverflowError
   \<and> localize_entry (\<lambda>t. - 18000) [(''validdate'', VStr ''0001-01-01T00:00:00+00:00'')]
       = [(''validdate'', VNone)]"
  by code_simp

text \<open>
  Claim C8, amended.  Take a \<^verbatim>\<open>validdate\<close> that \<^verbatim>\<open>fromisoformat\<close> reads, and a zone whose
  offset at that time is less than a day, as the offset of every \<^verbatim>\<open>pytz\<close> zone is.

  \<^item> When the local day is a day of the calendar (the years 1 to 9999), the conversion
    returns a text, the text parses again, and what it parses to denotes the instant
    of the original fields read as UTC, which is the instant of the \<^verbatim>\<open>validdate\<close> itself
    when that is in UTC.
  \<^item> When the local day is not a day of the calendar, the conversion raises
    \<^verbatim>\<open>OverflowError\<close>.
  \<^item> Converted with the zone \<^verbatim>\<open>UTC\<close>, whatever the date, the result is the text
    \<^verbatim>\<open>isoformat\<close> writes for the original fields with the offset \<^verbatim>\<open>+00:00\<close>, and it
    parses back to these.
  \<^item> A text that \<^verbatim>\<open>isoformat\<close> wrote for a datetime in UTC is converted with the zone
    \<^verbatim>\<open>UTC\<close> to itself.
\<close>

theorem localize_then_reparse_same_instant:
  "(fromisoformat s = Inr p \<longrightarrow>
      (- 86400 < tz (p\<lparr>tzinfo := None\<rparr>) \<and> tz (p\<lparr>tzinfo := None\<rparr>) < 86400
         \<and> 0 < (wall_micros p + tz (p\<lparr>tzinfo := None\<rparr>) * SECOND) div DAY
         \<and> (wall_micros p + tz (p\<lparr>tzinfo := None\<rparr>) * SECOND) div DAY \<le> MAXORDINAL \<longrightarrow>
       (\<exists>out q. convert_validdate tz (VStr s) = Inr out \<and> fromisoformat out = Inr q
            \<and> instant q = instant (p\<lparr>tzinfo := Some 0\<rparr>)
            \<and> (tzinfo p = Some 0 \<longrightarrow> instant q = instant p)
            \<and> tzinfo q = Some (tz (p\<lparr>tzinfo := None\<rparr>) * SECOND)))
      \<and> (\<not> (0 < (wall_micros p + tz (p\<lparr>tzinfo := None\<rparr>) * SECOND) div DAY
             \<and> (wall_micros p + tz (p\<lparr>tzinfo := None\<rparr>) * SECOND) div DAY \<le> MAXORDINAL) \<longrightarrow>
          convert_validdate tz (VStr s) = Inl OverflowError)
      \<and> (\<exists>out. convert_validdate pytz_UTC (VStr s) = Inr out
            \<and> isoformat (p\<lparr>tzinfo := Some 0\<rparr>) = Inr out
            \<and> fromisoformat out = Inr (p\<lparr>tzinfo := Some 0\<rparr>)))
   \<and> (valid_datetime u \<longrightarrow> tzinfo u = Some 0 \<longrightarrow>
        (\<exists>written. isoformat u = Inr written
            \<and> convert_validdate pytz_UTC (VStr written) = Inr written))"
proof -
  have A: "\<exists>out q. convert_validdate tz (VStr s) = Inr out \<and> fromisoformat out = Inr q
            \<and> instant q = instant (p\<lparr>tzinfo := Some 0\<rparr>)
            \<and> (tzinfo p = Some 0 \<longrightarrow> instant q = instant p)
            \<and> tzinfo q = Some (tz (p\<lparr>tzinfo := None\<rparr>) * SECOND)"
    if parsed: "fromisoformat s = Inr p"
      and lo: "- 86400 < tz (p\<lparr>tzinfo := None\<rparr>)" and hi: "tz (p\<lparr>tzinfo := None\<rparr>) < 86400"
      and first: "0 < (wall_micros p + tz (p\<lparr>tzinfo := None\<rparr>) * SECOND) div DAY"
      and last: "(wall_micros p + tz (p\<lparr>tzinfo := None\<rparr>) * SECOND) div DAY \<le> MAXORDINAL"
  proof -
    define u where "u = p\<lparr>tzinfo := Some 0\<rparr>"
    define k where "k = tz (p\<lparr>tzinfo := None\<rparr>)"
    have pv: "valid_datetime p" using fromisoformat_valid[OF parsed] .
    have uv: "valid_datetime u" "tzinfo u = Some 0" "wall_micros u = wall_micros p"
             "u\<lparr>tzinfo := None\<rparr> = p\<lparr>tzinfo := None\<rparr>"
      using pv unfolding u_def by simp_all
    have "\<exists>l. astimezone u tz = Inr l \<and> valid_datetime l
               \<and> tzinfo l = Some (tz (u\<lparr>tzinfo := None\<rparr>) * SECOND)
               \<and> wall_micros l = wall_micros u + tz (u\<lparr>tzinfo := None\<rparr>) * SECOND"
      using first last unfolding uv(3)[symmetric] uv(4)[symmetric]
      by (intro astimezone_from_utc[OF uv(1,2)])
    then obtain l where l: "astimezone u tz = Inr l" "valid_datetime l" "tzinfo l = Some (k * SECOND)"
        "wall_micros l = wall_micros p + k * SECOND"
      unfolding uv(3,4) k_def by blast
    obtain out where out: "isoformat l = Inr out" "fromisoformat out = Inr l"
      using fromisoformat_isoformat[OF l(2,3)] lo hi unfolding k_def by blast
    have c: "convert_validdate tz (VStr s) = Inr out"
      unfolding convert_validdate_parsed[OF parsed] u_def[symmetric] l(1) using out(1) by simp
    have i: "instant l = instant u"
      unfolding instant_def l(3) uv(2) using l(4) uv(3) by simp
    have same: "tzinfo p = Some 0 \<longrightarrow> instant l = instant p"
      using i unfolding u_def instant_def by simp
    show ?thesis
      using c out(2) i same l(3) unfolding u_def k_def by blast
  qed
  have O: "convert_validdate tz (VStr s) = Inl OverflowError"
    if parsed: "fromisoformat s = Inr p"
      and out: "\<not> (0 < (wall_micros p + tz (p\<lparr>tzinfo := None\<rparr>) * SECOND) div DAY
             \<and> (wall_micros p + tz (p\<lparr>tzinfo := None\<rparr>) * SECOND) div DAY \<le> MAXORDINAL)"
  proof -
    define u where "u = p\<lparr>tzinfo := Some 0\<rparr>"
    have pv: "valid_datetime p" using fromisoformat_valid[OF parsed] .
    have uv: "valid_datetime u" "tzinfo u = Some 0" "wall_micros u = wall_micros p"
             "u\<lparr>tzinfo := None\<rparr> = p\<lparr>tzinfo := None\<rparr>"
      using pv unfolding u_def by simp_all
    have "astimezone u tz = Inl OverflowError"
      using out unfolding uv(3)[symmetric] uv(4)[symmetric]
      by (intro astimezone_overflows[OF uv(1,2)])
    then show ?thesis
      unfolding convert_validdate_parsed[OF parsed] u_def[symmetric] by simp
  qed
  have B: "\<exists>out. convert_validdate pytz_UTC (VStr s) = Inr out
            \<and> isoformat (p\<lparr>tzinfo := Some 0\<rparr>) = Inr out
            \<and> fromisoformat out = Inr (p\<lparr>tzinfo := Some 0\<rparr>)"
    if parsed: "fromisoformat s = Inr p"
  proof -
    define u where "u = p\<lparr>tzinfo := Some 0\<rparr>"
    have pv: "valid_datetime p" using fromisoformat_valid[OF parsed] .
    have uv: "valid_datetime u" "tzinfo u = Some 0" using pv unfolding u_def by simp_all
    obtain out0 where out0: "isoformat u = Inr out0" "fromisoformat out0 = Inr u"
      using fromisoformat_isoformat[OF uv(1), of 0] uv(2) by auto
    have "convert_validdate pytz_UTC (VStr s) = Inr out0"
      unfolding convert_validdate_parsed[OF parsed] u_def[symmetric] astimezone_UTC[OF uv(1,2)]
      using out0(1) by simp
    then show ?thesis using out0 unfolding u_def by blast
  qed
  have C: "\<exists>written. isoformat u = Inr written \<and> convert_validdate pytz_UTC (VStr written) = Inr written"
    if uv: "valid_datetime u" "tzinfo u = Some 0"
  proof -
    obtain w where w: "isoformat u = Inr w" "fromisoformat w = Inr u"
      using fromisoformat_isoformat[OF uv(1), of 0] uv(2) by auto
    have "u\<lparr>tzinfo := Some 0\<rparr> = u" using uv(2) by simp
    then have "convert_validdate pytz_UTC (VStr w) = Inr w"
      unfolding convert_validdate_parsed[OF w(2)] using astimezone_UTC[OF uv] w(1) by simp
    then show ?thesis using w(1) by blast
  qed
  show ?thesis using A O B C by blast
qed

theorem localize_then_reparse_same_instant_witness:
  "(\<exists>out q. convert_validdate (\<lambda>t. 19800) (VStr ''2024-02-29T23:00:00Z'') = Inr out
       \<and> fromisoformat out = Inr q
       \<and> instant q = instant \<lparr>year = 2024, month = 2, day = 29, hour = 23, minute = 0, second = 0,
                               microsecond = 0, tzinfo = Some 0\<rparr>
       \<and> tzinfo q = Some (19800 * SECOND))
   \<and> (\<exists>out. convert_validdate pytz_UTC (VStr ''2024-02-29T23:00:00Z'') = Inr out
       \<and> isoformat \<lparr>year = 2024, month = 2, day = 29, hour = 23, minute = 0, second = 0,
                               microsecond = 0, tzinfo = Some 0\<rparr> = Inr out
       \<and> fromisoformat out = Inr \<lparr>year = 2024, month = 2, day = 29, hour = 23, minute = 0, second = 0,
                               microsecond = 0, tzinfo = Some 0\<rparr>)
   \<and> (\<exists>written. isoformat \<lparr>year = 2024, month = 2, day = 29, hour = 23, minute = 0, second = 0,
                               microsecond = 0, tzinfo = Some 0\<rparr> = Inr written
       \<and> convert_validdate pytz_UTC (VStr written) = Inr written)"
proof -
  define p where "p = \<lparr>year = 2024, month = 2, day = 29, hour = 23, minute = 0, second = 0,
                               microsecond = 0, tzinfo = Some (0::int)\<rparr>"
  have parsed: "fromisoformat ''2024-02-29T23:00:00Z'' = Inr p" unfolding p_def by code_simp
  have first: "0 < (wall_micros p + (\<lambda>t. 19800) (p\<lparr>tzinfo := None\<rparr>) * SECOND) div DAY"
    unfolding p_def by code_simp
  have last: "(wall_micros p + (\<lambda>t. 19800) (p\<lparr>tzinfo := None\<rparr>) * SECOND) div DAY \<le> MAXORDINAL"
    unfolding p_def by code_simp
  have v: "valid_datetime p" unfolding p_def by code_simp
  have z: "p\<lparr>tzinfo := Some 0\<rparr> = p" "tzinfo p = Some 0" unfolding p_def by simp_all
  show ?thesis
    using localize_then_reparse_same_instant[of "''2024-02-29T23:00:00Z''" p "\<lambda>t. 19800" p]
      parsed first last v
    unfolding z p_def by simp
qed

text \<open>
  Claim C10.  The offset written in a \<^verbatim>\<open>validdate\<close> has no effect: two texts that parse
  to the same fields with different offsets are converted to the same result.  For
  the text \<^verbatim>\<open>2024-06-01T12:00:00+05:00\<close> and the zone UTC the result is
  \<^verbatim>\<open>2024-06-01T12:00:00+00:00\<close>, which denotes another instant than the input.
\<close>

theorem offset_of_validdate_is_discarded:
  "(fromisoformat s = Inr p \<longrightarrow> fromisoformat s' = Inr p' \<longrightarrow>
      p'\<lparr>tzinfo := None\<rparr> = p\<lparr>tzinfo := None\<rparr> \<longrightarrow>
      convert_validdate tz (VStr s') = convert_validdate tz (VStr s))
   \<and> fromisoformat ''2024-06-01T12:00:00+05:00''
       = Inr \<lparr>year = 2024, month = 6, day = 1, hour = 12, minute = 0, second = 0,
               microsecond = 0, tzinfo = Some (5 * HOUR)\<rparr>
   \<and> convert_validdate pytz_UTC (VStr ''2024-06-01T12:00:00+05:00'') = Inr ''2024-06-01T12:00:00+00:00''
   \<and> fromisoformat ''2024-06-01T12:00:00+00:00''
       = Inr \<lparr>year = 2024, month = 6, day = 1, hour = 12, minute = 0, second = 0,
               microsecond = 0, tzinfo = Some 0\<rparr>
   \<and> instant \<lparr>year = 2024, month = 6, day = 1, hour = 12, minute = 0, second = 0,
               microsecond = 0, tzinfo = Some 0\<rparr>
       \<noteq> instant \<lparr>year = 2024, month = 6, day = 1, hour = 12, minute = 0, second = 0,
               microsecond = 0, tzinfo = Some (5 * HOUR)\<rparr>"
proof -
  have g: "convert_validdate tz (VStr s') = convert_validdate tz (VStr s)"
    if "fromisoformat s = Inr p" "fromisoformat s' = Inr p'" "p'\<lparr>tzinfo := None\<rparr> = p\<lparr>tzinfo := None\<rparr>"
  proof -
    have "p'\<lparr>tzinfo := Some 0\<rparr> = p\<lparr>tzinfo := Some 0\<rparr>"
      using that(3) by (metis datetime.update_convs(8) datetime.surjective)
    then show ?thesis
      unfolding convert_validdate_parsed[OF that(1)] convert_validdate_parsed[OF that(2)] by simp
  qed
  have e1: "fromisoformat ''2024-06-01T12:00:00+05:00''
       = Inr \<lparr>year = 2024, month = 6, day = 1, hour = 12, minute = 0, second = 0,
               microsecond = 0, tzinfo = Some (5 * HOUR)\<rparr>" by code_simp
  have e2: "convert_validdate pytz_UTC (VStr ''2024-06-01T12:00:00+05:00'') = Inr ''2024-06-01T12:00:00+00:00''"
    by code_simp
  have e3: "fromisoformat ''2024-06-01T12:00:00+00:00''
       = Inr \<lparr>year = 2024, month = 6, day = 1, hour = 12, minute = 0, second = 0,
               microsecond = 0, tzinfo = Some 0\<rparr>" by code_simp
  have e4: "instant \<lparr>year = 2024, month = 6, day = 1, hour = 12, minute = 0, second = 0,
               microsecond = 0, tzinfo = Some 0\<rparr>
       \<noteq> instant \<lparr>year = 2024, month = 6, day = 1, hour = 12, minute = 0, second = 0,
               microsecond = 0, tzinfo = Some (5 * HOUR)\<rparr>"
    by (simp add: instant_def time_units wall_micros_def toordinal_def)
  show ?thesis using g e1 e2 e3 e4 by blast
qed

theorem offset_of_validdate_is_discarded_witness:
  "convert_validdate (\<lambda>t. 19800) (VStr ''2024-06-01T12:00:00-03:00'')
     = convert_validdate (\<lambda>t. 19800) (VStr ''2024-06-01T12:00:00+05:00'')"
proof -
  have a: "fromisoformat ''2024-06-01T12:00:00+05:00''
       = Inr \<lparr>year = 2024, month = 6, day = 1, hour = 12, minute = 0, second = 0,
               microsecond = 0, tzinfo = Some (5 * HOUR)\<rparr>" by code_simp
  have b: "fromisoformat ''2024-06-01T12:00:00-03:00''
       = Inr \<lparr>year = 2024, month = 6, day = 1, hour = 12, minute = 0, second = 0,
               microsecond = 0, tzinfo = Some (- 3 * HOUR)\<rparr>" by code_simp
  show ?thesis
    using offset_of_validdate_is_discarded[of "''2024-06-01T12:00:00+05:00''" _
        "''2024-06-01T12:00:00-03:00''" _ "\<lambda>t. 19800"] a b
    by simp
qed

end
